theory Spec2Isabelle
  imports Main "HOL-Library.Word"
begin

section \<open>Data model (main.go, lines 21-57)\<close>

text \<open>
  Identifiers and the event counter are Go \<open>int64\<close>: 64-bit words, so that \<open>Events++\<close>
  wraps as it does in Go.  A position is a Go \<open>int\<close> that the code only ever sets to a slice
  index or a slice length, so it is an \<open>int\<close> obtained from a \<open>nat\<close>.  A \<open>*time.Time\<close> is
  an optional abstract instant.
\<close>

type_synonym ident = "64 word"
type_synonym instant = int

record card =
  card_id :: ident
  card_title :: string
  card_description :: string
  card_position :: int
  card_due :: "instant option"

record lst =
  lst_id :: ident
  lst_title :: string
  lst_position :: int
  lst_cards :: "card list"

record board =
  board_id :: ident
  board_title :: string
  board_lists :: "lst list"
  board_events :: "64 word"

section \<open>JSON values and the snapshot codec\<close>

text \<open>
  JSON values as the handlers and the snapshot file see them: null, integer numbers, strings,
  strings that hold an RFC 3339 instant, arrays and objects (fields in the order written).
\<close>

datatype json =
  JNull
  | JNum int
  | JStr string
  | JTime instant
  | JArr "json list"
  | JObj "(string \<times> json) list"

text \<open>
  Modelled from the spec: the encoder of \<open>encoding/json\<close> that \<open>save\<close> calls on the board
  map is a library and not part of the sources.  It is written here from the wire shape of the
  persisted snapshot in section 6 of the specification: an object keyed by board id, each
  board an object \<open>{id, title, lists, events}\<close>, each list \<open>{id, title, position, cards}\<close>,
  each card \<open>{id, title, description, position, due?}\<close> with \<open>due\<close> left out when there is no
  due time (the \<open>omitempty\<close> of line 42).  The top-level object is a list of entries, one per
  board id of the map in key order; the id stands for the key, its decimal text is not
  modelled.
\<close>

type_synonym snapshot = "(ident \<times> json) list"

definition encode_card :: "card \<Rightarrow> json" where
  "encode_card c = JObj ([(''id'', JNum (sint (card_id c))), (''title'', JStr (card_title c)),
       (''description'', JStr (card_description c)), (''position'', JNum (card_position c))]
       @ (case card_due c of None \<Rightarrow> [] | Some d \<Rightarrow> [(''due'', JTime d)]))"

definition encode_lst :: "lst \<Rightarrow> json" where
  "encode_lst l = JObj [(''id'', JNum (sint (lst_id l))), (''title'', JStr (lst_title l)),
       (''position'', JNum (lst_position l)), (''cards'', JArr (map encode_card (lst_cards l)))]"

definition encode_board :: "board \<Rightarrow> json" where
  "encode_board b = JObj [(''id'', JNum (sint (board_id b))), (''title'', JStr (board_title b)),
       (''lists'', JArr (map encode_lst (board_lists b))),
       (''events'', JNum (sint (board_events b)))]"

definition encode_boards :: "(ident \<rightharpoonup> board) \<Rightarrow> snapshot" where
  "encode_boards m = map (\<lambda>k. (k, encode_board (the (m k)))) (sorted_list_of_set (dom m))"

text \<open>
  Modelled from the spec: the decoder of \<open>encoding/json\<close> that \<open>load\<close> calls, for the same
  wire shape.  A field that is absent or null leaves the zero value; a field of another kind,
  a number outside \<open>int64\<close> for an id or a counter, or a value that is not an object where an
  object is expected is an error.  The entries are decoded into the map that is passed in, one
  after the other, and the first error stops the decoding.
\<close>

definition num_field :: "(string \<times> json) list \<Rightarrow> string \<Rightarrow> int option" where
  "num_field fs k = (case map_of fs k of None \<Rightarrow> Some 0 | Some JNull \<Rightarrow> Some 0
                      | Some (JNum n) \<Rightarrow> Some n | Some _ \<Rightarrow> None)"

definition int64_field :: "(string \<times> json) list \<Rightarrow> string \<Rightarrow> 64 word option" where
  "int64_field fs k = (case num_field fs k of None \<Rightarrow> None
      | Some n \<Rightarrow> if - (2 ^ 63) \<le> n \<and> n < 2 ^ 63 then Some (word_of_int n) else None)"

definition str_field :: "(string \<times> json) list \<Rightarrow> string \<Rightarrow> string option" where
  "str_field fs k = (case map_of fs k of None \<Rightarrow> Some [] | Some JNull \<Rightarrow> Some []
                      | Some (JStr x) \<Rightarrow> Some x | Some _ \<Rightarrow> None)"

definition time_field :: "(string \<times> json) list \<Rightarrow> string \<Rightarrow> instant option option" where
  "time_field fs k = (case map_of fs k of None \<Rightarrow> Some None | Some JNull \<Rightarrow> Some None
                       | Some (JTime d) \<Rightarrow> Some (Some d) | Some _ \<Rightarrow> None)"

fun decode_all :: "(json \<Rightarrow> 'a option) \<Rightarrow> json list \<Rightarrow> 'a list option" where
  "decode_all f [] = Some []"
| "decode_all f (j # js) =
     (case f j of None \<Rightarrow> None
      | Some x \<Rightarrow> (case decode_all f js of None \<Rightarrow> None | Some xs \<Rightarrow> Some (x # xs)))"

definition arr_field ::
  "(json \<Rightarrow> 'a option) \<Rightarrow> (string \<times> json) list \<Rightarrow> string \<Rightarrow> 'a list option" where
  "arr_field f fs k = (case map_of fs k of None \<Rightarrow> Some [] | Some JNull \<Rightarrow> Some []
                        | Some (JArr js) \<Rightarrow> decode_all f js | Some _ \<Rightarrow> None)"

definition decode_card :: "json \<Rightarrow> card option" where
  "decode_card j = (case j of
       JObj fs \<Rightarrow>
         (case (int64_field fs ''id'', str_field fs ''title'', str_field fs ''description'',
                num_field fs ''position'', time_field fs ''due'') of
            (Some i, Some t, Some d, Some p, Some du) \<Rightarrow>
              Some \<lparr>card_id = i, card_title = t, card_description = d, card_position = p,
                    card_due = du\<rparr>
          | _ \<Rightarrow> None)
     | _ \<Rightarrow> None)"

definition decode_lst :: "json \<Rightarrow> lst option" where
  "decode_lst j = (case j of
       JObj fs \<Rightarrow>
         (case (int64_field fs ''id'', str_field fs ''title'', num_field fs ''position'',
                arr_field decode_card fs ''cards'') of
            (Some i, Some t, Some p, Some cs) \<Rightarrow>
              Some \<lparr>lst_id = i, lst_title = t, lst_position = p, lst_cards = cs\<rparr>
          | _ \<Rightarrow> None)
     | _ \<Rightarrow> None)"

definition decode_board :: "json \<Rightarrow> board option" where
  "decode_board j = (case j of
       JObj fs \<Rightarrow>
         (case (int64_field fs ''id'', str_field fs ''title'', arr_field decode_lst fs ''lists'',
                int64_field fs ''events'') of
            (Some i, Some t, Some ls, Some e) \<Rightarrow>
              Some \<lparr>board_id = i, board_title = t, board_lists = ls, board_events = e\<rparr>
          | _ \<Rightarrow> None)
     | _ \<Rightarrow> None)"

fun decode_boards ::
  "snapshot \<Rightarrow> (ident \<rightharpoonup> board) \<Rightarrow> (ident \<rightharpoonup> board) \<times> string option" where
  "decode_boards [] m = (m, None)"
| "decode_boards ((k, j) # es) m =
     (case decode_board j of None \<Rightarrow> (m, Some ''json: cannot unmarshal'')
      | Some b \<Rightarrow> decode_boards es (m(k \<mapsto> b)))"

text \<open>A buffered Go channel of byte messages: its buffer, its capacity, whether it is closed.\<close>

datatype msg =
  ListCreated lst
  | CardCreated card
  | CardMoved ident ident int

record chan =
  chan_buf :: "msg list"
  chan_cap :: nat
  chan_closed :: bool

text \<open>The state of the store's \<open>sync.RWMutex\<close>.\<close>

datatype lockst = Free | RLocked nat | WLocked

text \<open>
  The store: the mutex, the board map, the subscriber registry (per board, the registered
  channels, as addresses into the channel heap \<open>chans\<close>; \<open>nchan\<close> is the next unused
  address), and the snapshot files that have been renamed into place at \<open>path\<close>, newest
  first.
\<close>

record store =
  mu :: lockst
  boards :: "ident \<rightharpoonup> board"
  streams :: "ident \<rightharpoonup> nat list"
  chans :: "nat \<rightharpoonup> chan"
  nchan :: nat
  disk :: "snapshot list"

definition NewStore :: store where
  "NewStore = \<lparr>mu = Free, boards = Map.empty, streams = Map.empty, chans = Map.empty,
     nchan = 0, disk = []\<rparr>"

datatype error = InvalidInput string | NotFound string

text \<open>
  How a call ends: it returns, it waits forever for the mutex, or it panics.
\<close>

datatype 'a outcome = Returned 'a | Blocks | Panics

section \<open>The mutex\<close>

text \<open>
  \<open>Lock\<close> and \<open>RLock\<close> return \<open>None\<close> when the calling goroutine would wait for a lock
  that is already held: in a sequential run nobody else releases it, so the call never returns.
\<close>

definition Lock :: "store \<Rightarrow> store option" where
  "Lock s = (case mu s of Free \<Rightarrow> Some (s\<lparr>mu := WLocked\<rparr>) | _ \<Rightarrow> None)"

definition Unlock :: "store \<Rightarrow> store" where
  "Unlock s = s\<lparr>mu := Free\<rparr>"

definition RLock :: "store \<Rightarrow> store option" where
  "RLock s = (case mu s of Free \<Rightarrow> Some (s\<lparr>mu := RLocked 1\<rparr>)
                | RLocked n \<Rightarrow> Some (s\<lparr>mu := RLocked (Suc n)\<rparr>)
                | WLocked \<Rightarrow> None)"

definition RUnlock :: "store \<Rightarrow> store" where
  "RUnlock s = (case mu s of RLocked (Suc (Suc n)) \<Rightarrow> s\<lparr>mu := RLocked (Suc n)\<rparr>
                | _ \<Rightarrow> s\<lparr>mu := Free\<rparr>)"

section \<open>Persistence: save (lines 74-93)\<close>

text \<open>
  \<open>save\<close> takes the read lock, writes the encoded board map to a temporary file and renames
  it over \<open>path\<close>.  \<open>io_ok\<close> says whether the directory creation, the write and the rename
  all succeed; the handlers discard the error.
\<close>

definition save :: "bool \<Rightarrow> store \<Rightarrow> store option" where
  "save io_ok s = (case RLock s of None \<Rightarrow> None
     | Some s1 \<Rightarrow> Some (RUnlock (if io_ok then s1\<lparr>disk := encode_boards (boards s1) # disk s1\<rparr> else s1)))"

section \<open>Event fan-out (lines 96-128)\<close>

text \<open>
  One \<open>select { case ch <- b: default: }\<close>: a send on a closed channel panics, a send on a
  channel with room appends, a send on a full channel takes the default branch.
\<close>

definition try_send :: "msg \<Rightarrow> chan \<Rightarrow> chan option" where
  "try_send b c = (if chan_closed c then None
     else if length (chan_buf c) < chan_cap c then Some (c\<lparr>chan_buf := chan_buf c @ [b]\<rparr>)
     else Some c)"

text \<open>The loop over the registered channels; \<open>None\<close> is a panic (closed or dangling channel).\<close>

fun send_all :: "msg \<Rightarrow> nat list \<Rightarrow> (nat \<rightharpoonup> chan) \<Rightarrow> (nat \<rightharpoonup> chan) option" where
  "send_all b [] h = Some h"
| "send_all b (a # as) h =
     (case h a of None \<Rightarrow> None
      | Some c \<Rightarrow> (case try_send b c of None \<Rightarrow> None
                   | Some c' \<Rightarrow> send_all b as (h(a \<mapsto> c'))))"

definition subs_of :: "store \<Rightarrow> ident \<Rightarrow> nat list" where
  "subs_of s boardID = (case streams s boardID of None \<Rightarrow> [] | Some subs \<Rightarrow> subs)"

definition broadcast :: "ident \<Rightarrow> msg \<Rightarrow> store \<Rightarrow> store outcome" where
  "broadcast boardID b s = (case RLock s of None \<Rightarrow> Blocks
     | Some s1 \<Rightarrow> (case send_all b (subs_of s1 boardID) (chans s1) of None \<Rightarrow> Panics
                   | Some h \<Rightarrow> Returned (RUnlock (s1\<lparr>chans := h\<rparr>))))"

text \<open>
  \<open>subscribe\<close> makes a channel of capacity 16 at a new address, creates the board's
  registry if it is nil and adds the channel to it.  It returns the address and the store;
  the cancel closure is \<open>cancel boardID ch\<close>.
\<close>

definition subscribe :: "ident \<Rightarrow> store \<Rightarrow> (nat \<times> store) outcome" where
  "subscribe boardID s0 =
     (let ch = nchan s0;
          s = s0\<lparr>chans := (chans s0)(ch \<mapsto> \<lparr>chan_buf = [], chan_cap = 16, chan_closed = False\<rparr>),
                  nchan := Suc (nchan s0)\<rparr>
      in case Lock s of None \<Rightarrow> Blocks
         | Some s1 \<Rightarrow>
             Returned (ch, Unlock (s1\<lparr>streams := (streams s1)(boardID \<mapsto>
                       List.insert ch (subs_of s1 boardID))\<rparr>)))"

text \<open>
  The cancel closure: delete the channel from the board's registry (a delete on a nil map
  does nothing) and close it; closing a closed channel panics.
\<close>

definition cancel :: "ident \<Rightarrow> nat \<Rightarrow> store \<Rightarrow> store outcome" where
  "cancel boardID ch s = (case Lock s of None \<Rightarrow> Blocks
     | Some s1 \<Rightarrow>
        (let s2 = (case streams s1 boardID of None \<Rightarrow> s1
                   | Some subs \<Rightarrow> s1\<lparr>streams := (streams s1)(boardID \<mapsto> removeAll ch subs)\<rparr>)
         in case chans s2 ch of None \<Rightarrow> Panics
            | Some c \<Rightarrow> if chan_closed c then Panics
                        else Returned (Unlock (s2\<lparr>chans := (chans s2)(ch \<mapsto> c\<lparr>chan_closed := True\<rparr>)\<rparr>))))"

section \<open>Handlers (lines 143-340)\<close>

text \<open>
  A handler takes the decoded request body (\<open>None\<close> when decoding fails; for
  \<open>createCard\<close> the body itself, since the decode decides what it does), the values it
  reads from the clock and the random source, whether the file system accepts the snapshot,
  and the store.  It yields how the call ends and the store at that point; for a panic
  inside \<open>broadcast\<close> the store is the one before the broadcast.
\<close>

type_synonym 'a reply = "(error + 'a) outcome \<times> store"

text \<open>The tail shared by the handlers: \<open>save\<close>, \<open>broadcast\<close>, then the success reply.\<close>

definition commit :: "bool \<Rightarrow> ident \<Rightarrow> msg \<Rightarrow> 'a \<Rightarrow> store \<Rightarrow> 'a reply" where
  "commit io_ok boardID m r s = (case save io_ok s of None \<Rightarrow> (Blocks, s)
     | Some s1 \<Rightarrow> (case broadcast boardID m s1 of
          Returned s2 \<Rightarrow> (Returned (Inr r), s2)
        | Blocks \<Rightarrow> (Blocks, s1)
        | Panics \<Rightarrow> (Panics, s1)))"

definition createBoard :: "string option \<Rightarrow> ident \<Rightarrow> bool \<Rightarrow> store \<Rightarrow> board reply" where
  "createBoard req now io_ok s =
     (case req of None \<Rightarrow> (Returned (Inl (InvalidInput ''title required'')), s)
      | Some title \<Rightarrow>
         if title = [] then (Returned (Inl (InvalidInput ''title required'')), s)
         else let b = \<lparr>board_id = now, board_title = title, board_lists = [], board_events = 0\<rparr>
              in case Lock s of None \<Rightarrow> (Blocks, s)
                 | Some s1 \<Rightarrow>
                    let s2 = Unlock (s1\<lparr>boards := (boards s1)(now \<mapsto> b)\<rparr>)
                    in case save io_ok s2 of None \<Rightarrow> (Blocks, s2)
                       | Some s3 \<Rightarrow> (Returned (Inr b), s3))"

definition createList :: "ident \<Rightarrow> string option \<Rightarrow> ident \<Rightarrow> bool \<Rightarrow> store \<Rightarrow> lst reply" where
  "createList boardID req now io_ok s =
     (case req of None \<Rightarrow> (Returned (Inl (InvalidInput ''title required'')), s)
      | Some title \<Rightarrow>
         if title = [] then (Returned (Inl (InvalidInput ''title required'')), s)
         else case Lock s of None \<Rightarrow> (Blocks, s)
              | Some s1 \<Rightarrow>
                 (case boards s1 boardID of
                    None \<Rightarrow> (Returned (Inl (NotFound ''board not found'')), Unlock s1)
                  | Some b \<Rightarrow>
                     let l = \<lparr>lst_id = now, lst_title = title,
                              lst_position = int (length (board_lists b)), lst_cards = []\<rparr>;
                         b' = b\<lparr>board_lists := board_lists b @ [l],
                                board_events := board_events b + 1\<rparr>
                     in commit io_ok boardID (ListCreated l) l
                          (Unlock (s1\<lparr>boards := (boards s1)(boardID \<mapsto> b')\<rparr>))))"

text \<open>The index of the first element that satisfies the test (the \<open>for ... break\<close> loops).\<close>

fun index_where :: "('a \<Rightarrow> bool) \<Rightarrow> 'a list \<Rightarrow> nat option" where
  "index_where P [] = None"
| "index_where P (x # xs) = (if P x then Some 0 else map_option Suc (index_where P xs))"

text \<open>The request struct of \<open>createCard\<close> (lines 227-230) after the decode.\<close>

record card_req =
  req_title :: string
  req_description :: string
  req_due :: "instant option"

text \<open>
  The decode of the body into that struct (line 231).  \<open>Title\<close> and \<open>Description\<close> are
  declared together and so carry the same tag \<open>json:"title"\<close>; \<open>encoding/json\<close> drops two
  fields of one struct that claim the same name, so neither is ever filled.  \<open>Due\<close> has no tag
  and is read from the key \<open>due\<close>, in any letter case.  A null body leaves the zero struct, a
  body that is not an object is a decode error.
\<close>

definition fold_due :: "char \<Rightarrow> char" where
  "fold_due c = (if c = CHR ''D'' then CHR ''d'' else if c = CHR ''U'' then CHR ''u''
                 else if c = CHR ''E'' then CHR ''e'' else c)"

definition decode_card_req :: "json \<Rightarrow> card_req option" where
  "decode_card_req j = (case j of
       JNull \<Rightarrow> Some \<lparr>req_title = [], req_description = [], req_due = None\<rparr>
     | JObj fs \<Rightarrow>
         (case time_field (map (\<lambda>(k, v). (map fold_due k, v)) fs) ''due'' of
            None \<Rightarrow> None
          | Some d \<Rightarrow> Some \<lparr>req_title = [], req_description = [], req_due = d\<rparr>)
     | _ \<Rightarrow> None)"

text \<open>
  Lines 231-263: \<open>createCard\<close> from the title check on, for the struct the decode left
  (\<open>None\<close> when the decode failed).
\<close>

definition createCard_decoded ::
  "ident \<Rightarrow> ident \<Rightarrow> card_req option \<Rightarrow> ident \<Rightarrow> bool \<Rightarrow> store \<Rightarrow> card reply" where
  "createCard_decoded boardID listID req new_id io_ok s =
     (case req of None \<Rightarrow> (Returned (Inl (InvalidInput ''title required'')), s)
      | Some rq \<Rightarrow>
         if req_title rq = [] then (Returned (Inl (InvalidInput ''title required'')), s)
         else case Lock s of None \<Rightarrow> (Blocks, s)
              | Some s1 \<Rightarrow>
                 (case boards s1 boardID of
                    None \<Rightarrow> (Returned (Inl (NotFound ''board not found'')), Unlock s1)
                  | Some b \<Rightarrow>
                     (case index_where (\<lambda>l. lst_id l = listID) (board_lists b) of
                        None \<Rightarrow> (Returned (Inl (NotFound ''list not found'')), Unlock s1)
                      | Some i \<Rightarrow>
                         let target = board_lists b ! i;
                             c = \<lparr>card_id = new_id, card_title = req_title rq,
                                  card_description = req_description rq,
                                  card_position = int (length (lst_cards target)),
                                  card_due = req_due rq\<rparr>;
                             target' = target\<lparr>lst_cards := lst_cards target @ [c]\<rparr>;
                             b' = b\<lparr>board_lists := (board_lists b)[i := target'],
                                    board_events := board_events b + 1\<rparr>
                         in commit io_ok boardID (CardCreated c) c
                              (Unlock (s1\<lparr>boards := (boards s1)(boardID \<mapsto> b')\<rparr>)))))"

text \<open>
  The handler \<open>createCard\<close>: the body as sent (\<open>None\<close> when it is not JSON), decoded into
  the request struct, then lines 231-263.
\<close>

definition createCard ::
  "ident \<Rightarrow> ident \<Rightarrow> json option \<Rightarrow> ident \<Rightarrow> bool \<Rightarrow> store \<Rightarrow> card reply" where
  "createCard boardID listID body new_id io_ok s =
     createCard_decoded boardID listID
       (case body of None \<Rightarrow> None | Some j \<Rightarrow> decode_card_req j) new_id io_ok s"

text \<open>The renumbering loops \<open>for i := range cards { cards[i].Position = i }\<close>.\<close>

fun renumber_from :: "nat \<Rightarrow> card list \<Rightarrow> card list" where
  "renumber_from i [] = []"
| "renumber_from i (c # cs) = c\<lparr>card_position := int i\<rparr> # renumber_from (Suc i) cs"

definition renumber :: "card list \<Rightarrow> card list" where
  "renumber cs = renumber_from 0 cs"

record move_req =
  CardID :: ident
  FromListID :: ident
  ToListID :: ident
  ToPos :: int

text \<open>The clamp of lines 326-328, against the destination's length at that point.\<close>

definition clamp_pos :: "int \<Rightarrow> nat \<Rightarrow> nat" where
  "clamp_pos p n = (if p < 0 \<or> p > int n then n else nat p)"

text \<open>
  Lines 284-313 of \<open>moveCard\<close> on the board: find the source list and the card, cut the
  card out of the source list and renumber the source.  The result is the board after these
  lines and the card, or the error of the early return.
\<close>

definition take_card :: "move_req \<Rightarrow> board \<Rightarrow> error + (card \<times> board)" where
  "take_card rq b =
     (case index_where (\<lambda>l. lst_id l = FromListID rq) (board_lists b) of
        None \<Rightarrow> Inl (NotFound ''from list not found'')
      | Some fi \<Rightarrow>
         let from = board_lists b ! fi in
         (case index_where (\<lambda>c. card_id c = CardID rq) (lst_cards from) of
            None \<Rightarrow> Inl (NotFound ''card not found'')
          | Some idx \<Rightarrow>
             let c = lst_cards from ! idx;
                 from' = from\<lparr>lst_cards :=
                           renumber (take idx (lst_cards from) @ drop (Suc idx) (lst_cards from))\<rparr>
             in Inr (c, b\<lparr>board_lists := (board_lists b)[fi := from']\<rparr>)))"

text \<open>
  Lines 314-335 on the board that \<open>take_card\<close> left: find the destination, clamp, insert,
  renumber, count the event.  The result is the board, the destination's id and the final
  position, or the error of the early return.
\<close>

definition put_card :: "move_req \<Rightarrow> card \<Rightarrow> board \<Rightarrow> error + (ident \<times> nat \<times> board)" where
  "put_card rq c b =
     (case index_where (\<lambda>l. lst_id l = ToListID rq) (board_lists b) of
        None \<Rightarrow> Inl (NotFound ''to list not found'')
      | Some ti \<Rightarrow>
         let to = board_lists b ! ti;
             p = clamp_pos (ToPos rq) (length (lst_cards to));
             to' = to\<lparr>lst_cards := renumber (take p (lst_cards to) @ [c] @ drop p (lst_cards to))\<rparr>
         in Inr (lst_id to, p, b\<lparr>board_lists := (board_lists b)[ti := to'],
                                 board_events := board_events b + 1\<rparr>))"

text \<open>
  The handler.  The write lock is released by a deferred \<open>Unlock\<close>, so it is still held
  when \<open>save\<close> and \<open>broadcast\<close> ask for the read lock.
\<close>

definition moveCard :: "ident \<Rightarrow> move_req option \<Rightarrow> bool \<Rightarrow> store \<Rightarrow> unit reply" where
  "moveCard boardID req io_ok s =
     (case req of None \<Rightarrow> (Returned (Inl (InvalidInput ''bad request'')), s)
      | Some rq \<Rightarrow>
         (case Lock s of None \<Rightarrow> (Blocks, s)
          | Some s1 \<Rightarrow>
             (case boards s1 boardID of
                None \<Rightarrow> (Returned (Inl (NotFound ''board not found'')), Unlock s1)
              | Some b \<Rightarrow>
                 (case take_card rq b of
                    Inl e \<Rightarrow> (Returned (Inl e), Unlock s1)
                  | Inr (c, b1) \<Rightarrow>
                     let s2 = s1\<lparr>boards := (boards s1)(boardID \<mapsto> b1)\<rparr> in
                     (case put_card rq c b1 of
                        Inl e \<Rightarrow> (Returned (Inl e), Unlock s2)
                      | Inr (to_id, p, b2) \<Rightarrow>
                         let s3 = s2\<lparr>boards := (boards s2)(boardID \<mapsto> b2)\<rparr> in
                         (case commit io_ok boardID (CardMoved (card_id c) to_id (int p)) () s3 of
                            (Blocks, s4) \<Rightarrow> (Blocks, s4)
                          | (r, s4) \<Rightarrow> (r, Unlock s4)))))))"

section \<open>Startup: load and main (lines 59-72, 383-391)\<close>

text \<open>
  What \<open>os.Open\<close> finds at \<open>path\<close>: no file, another error, or a file with its bytes.
  The JSON decoder is a parameter \<open>dec\<close>: from the bytes and the map it decodes into, it
  gives the map it leaves behind and the error it returns, if any.
\<close>

datatype 'b open_result = NotExist | OpenError string | Opened 'b

type_synonym 'b decoder = "'b \<Rightarrow> (ident \<rightharpoonup> board) \<Rightarrow> (ident \<rightharpoonup> board) \<times> string option"

definition load :: "'b decoder \<Rightarrow> 'b open_result \<Rightarrow> store \<Rightarrow> (string option \<times> store) outcome" where
  "load dec file s = (case Lock s of None \<Rightarrow> Blocks
     | Some s1 \<Rightarrow>
        (case file of
           NotExist \<Rightarrow> Returned (None, Unlock s1)
         | OpenError e \<Rightarrow> Returned (Some e, Unlock s1)
         | Opened bs \<Rightarrow> (case dec bs (boards s1) of
              (m, err) \<Rightarrow> Returned (err, Unlock (s1\<lparr>boards := m\<rparr>)))))"

text \<open>The start of \<open>main\<close>: \<open>log.Fatal\<close> on a load error, the server on the store otherwise.\<close>

datatype startup = Fatal string | Serving store | Stuck

definition main_startup :: "'b decoder \<Rightarrow> 'b open_result \<Rightarrow> startup" where
  "main_startup dec file = (case load dec file NewStore of
       Returned (None, s) \<Rightarrow> Serving s
     | Returned (Some e, s) \<Rightarrow> Fatal e
     | _ \<Rightarrow> Stuck)"

text \<open>
  What \<open>os.Open\<close> finds at \<open>path\<close> after the saves recorded in the store: the newest
  snapshot file, or nothing when none was written.
\<close>

definition snapshot_file :: "store \<Rightarrow> snapshot open_result" where
  "snapshot_file s = (case disk s of [] \<Rightarrow> NotExist | f # _ \<Rightarrow> Opened f)"

section \<open>Invariants\<close>

text \<open>Positions are the indices, for cards in a list and for lists in a board.\<close>

definition cards_ok :: "card list \<Rightarrow> bool" where
  "cards_ok cs = (map card_position cs = map int [0..<length cs])"

definition lists_ok :: "lst list \<Rightarrow> bool" where
  "lists_ok ls = (map lst_position ls = map int [0..<length ls]
                   \<and> list_all (\<lambda>l. cards_ok (lst_cards l)) ls)"

definition store_ok :: "store \<Rightarrow> bool" where
  "store_ok s = (\<forall>k b. boards s k = Some b \<longrightarrow> lists_ok (board_lists b))"

text \<open>
  The registry is a set of live channels: every registered address holds an open channel,
  no address is registered twice for a board, every channel was made with capacity 16 below
  the allocation mark.
\<close>

definition registry_ok :: "store \<Rightarrow> bool" where
  "registry_ok s = ((\<forall>k subs. streams s k = Some subs \<longrightarrow>
                        distinct subs \<and> (\<forall>a \<in> set subs. \<exists>c. chans s a = Some c \<and> \<not> chan_closed c))
                    \<and> (\<forall>a c. chans s a = Some c \<longrightarrow> a < nchan s \<and> chan_cap c = 16))"

text \<open>
  The stores that runs of the handlers and of subscribe and cancel reach from the empty
  store, whatever the outcome of each call.  The rule for \<open>createCard_decoded\<close> adds the runs
  in which lines 231-263 are entered with any request struct at all.
\<close>

inductive reach :: "store \<Rightarrow> bool" where
  reach_new: "reach NewStore"
| reach_createBoard: "reach s \<Longrightarrow> reach (snd (createBoard req now io_ok s))"
| reach_createList: "reach s \<Longrightarrow> reach (snd (createList boardID req now io_ok s))"
| reach_createCard: "reach s \<Longrightarrow> reach (snd (createCard boardID listID body new_id io_ok s))"
| reach_createCard_decoded:
    "reach s \<Longrightarrow> reach (snd (createCard_decoded boardID listID creq new_id io_ok s))"
| reach_moveCard: "reach s \<Longrightarrow> reach (snd (moveCard boardID mreq io_ok s))"
| reach_subscribe: "reach s \<Longrightarrow> subscribe boardID s = Returned (ch, s') \<Longrightarrow> reach s'"
| reach_cancel: "reach s \<Longrightarrow> cancel boardID ch s = Returned s' \<Longrightarrow> reach s'"

section \<open>Auxiliary notions for the fan-out\<close>

text \<open>The addresses in \<open>as\<close> hold open channels in the heap \<open>h\<close>.\<close>

definition live :: "(nat \<rightharpoonup> chan) \<Rightarrow> nat list \<Rightarrow> bool" where
  "live h as = (\<forall>a \<in> set as. \<exists>c. h a = Some c \<and> \<not> chan_closed c)"


text \<open>
  The store after \<open>save\<close> and \<open>broadcast\<close> have both run to their end on \<open>s\<close>: the snapshot
  on disk when the file system took it, and each registered channel of the board after its
  \<open>select\<close>.
\<close>

definition after_commit :: "bool \<Rightarrow> ident \<Rightarrow> msg \<Rightarrow> store \<Rightarrow> store" where
  "after_commit io_ok k m s = s\<lparr>disk := (if io_ok then encode_boards (boards s) # disk s else disk s),
      chans := (\<lambda>a. if a \<in> set (subs_of s k) then try_send m (the (chans s a)) else chans s a)\<rparr>"

section \<open>The event counter\<close>

text \<open>
  The counter of the board stored under an id, read as the signed integer Go sees.
  \<open>others_kept k\<close>: no board but the one under \<open>k\<close> has its counter changed.
  \<open>counted k\<close>: the counter of the board under \<open>k\<close> went up by one, as an \<open>int64\<close>.
\<close>

definition events_of :: "store \<Rightarrow> ident \<Rightarrow> int option" where
  "events_of s k = map_option (\<lambda>b. sint (board_events b)) (boards s k)"

definition others_kept :: "ident \<Rightarrow> store \<Rightarrow> store \<Rightarrow> bool" where
  "others_kept k s s' = (\<forall>k'. k' \<noteq> k \<longrightarrow> events_of s' k' = events_of s k')"

definition counted :: "ident \<Rightarrow> store \<Rightarrow> store \<Rightarrow> bool" where
  "counted k s s' = (\<exists>n. events_of s k = Some n
       \<and> events_of s' k = Some (if n = 2 ^ 63 - 1 then - (2 ^ 63) else n + 1))"

section \<open>Concrete runs\<close>

text \<open>A store with one board, one list and two cards.\<close>

definition two_card_store :: store where
  "two_card_store = NewStore\<lparr>boards := [1 \<mapsto> \<lparr>board_id = 1, board_title = ''B'',
      board_lists = [\<lparr>lst_id = 10, lst_title = ''L'', lst_position = 0,
         lst_cards = [\<lparr>card_id = 100, card_title = ''A'', card_description = [],
                        card_position = 0, card_due = None\<rparr>,
                      \<lparr>card_id = 101, card_title = ''Z'', card_description = [],
                        card_position = 1, card_due = None\<rparr>]\<rparr>],
      board_events = 2\<rparr>]\<rparr>"

text \<open>A store whose only board has its counter at the largest \<open>int64\<close>.\<close>

definition full_counter_store :: store where
  "full_counter_store = NewStore\<lparr>boards := [1 \<mapsto> \<lparr>board_id = 1, board_title = ''B'',
      board_lists = [], board_events = 9223372036854775807\<rparr>]\<rparr>"

text \<open>A board with two subscribers: the queue at address 0 is full, the one at 1 is empty.\<close>

definition fanout_store :: store where
  "fanout_store = NewStore\<lparr>boards := [1 \<mapsto> \<lparr>board_id = 1, board_title = ''B'',
        board_lists = [], board_events = 0\<rparr>],
      streams := [1 \<mapsto> [0, 1]],
      chans := [0 \<mapsto> \<lparr>chan_buf = replicate 16 (CardMoved 4 3 0), chan_cap = 16, chan_closed = False\<rparr>,
                1 \<mapsto> \<lparr>chan_buf = [], chan_cap = 16, chan_closed = False\<rparr>],
      nchan := 2\<rparr>"

text \<open>A decoder to run \<open>load\<close> with: it accepts the empty object and nothing else.\<close>

definition toy_decoder :: "string decoder" where
  "toy_decoder bs m = (if bs = ''{}'' then (m, None) else (m, Some ''invalid character''))"

text \<open>
  The scenario of the specification as requests, with the clock giving the ids 1, 2, 3 and
  4: board Alpha, lists To Do and Done, a card creation in To Do with the body
  \<open>{"title": "Task1"}\<close>, then the move of card 4 from To Do to Done at 0.
\<close>

definition scenario_lists :: store where
  "scenario_lists =
     (let s0 = snd (createBoard (Some ''Alpha'') 1 True NewStore);
          s1 = snd (createList 1 (Some ''To Do'') 2 True s0)
      in snd (createList 1 (Some ''Done'') 3 True s1))"

definition scenario_card :: "card reply" where
  "scenario_card = createCard 1 2 (Some (JObj [(''title'', JStr ''Task1'')])) 4 True scenario_lists"

definition scenario_created :: store where
  "scenario_created = snd scenario_card"

definition scenario :: "unit reply" where
  "scenario = moveCard 1 (Some \<lparr>CardID = 4, FromListID = 2, ToListID = 3, ToPos = 0\<rparr>) True
                scenario_created"

section \<open>Unfolding the handlers\<close>

lemmas handler_defs = NewStore_def moveCard_def Lock_def Unlock_def take_card_def put_card_def
  renumber_def clamp_pos_def commit_def save_def RLock_def RUnlock_def broadcast_def subs_of_def
  createBoard_def createList_def createCard_decoded_def createCard_def decode_card_req_def
  time_field_def fold_due_def

lemma commit_WLocked: "mu s = WLocked \<Longrightarrow> commit io_ok k m r s = (Blocks, s)"
  by (simp add: commit_def save_def RLock_def)

text \<open>
  Once the validations of \<open>moveCard\<close> have passed, \<open>save\<close> asks for the read lock while
  the handler still holds the write lock: the handler never returns success.
\<close>

lemma moveCard_never_succeeds: "fst (moveCard k req io_ok s) \<noteq> Returned (Inr r)"
  by (auto simp: moveCard_def Lock_def Unlock_def commit_WLocked Let_def
           split: option.splits sum.splits prod.splits lockst.splits)

section \<open>Locks, save and broadcast on an unlocked store\<close>

lemma mu_Free_id: "mu s = Free \<Longrightarrow> s\<lparr>mu := Free\<rparr> = s"
  by (cases s) simp

lemma Lock_Free: "mu s = Free \<Longrightarrow> Lock s = Some (s\<lparr>mu := WLocked\<rparr>)"
  by (simp add: Lock_def)

lemma save_Free:
  "mu s = Free \<Longrightarrow> save io_ok s = Some (if io_ok then s\<lparr>disk := encode_boards (boards s) # disk s\<rparr> else s)"
  by (cases s) (simp add: save_def RLock_def RUnlock_def)

lemma send_all_live:
  "live h as \<Longrightarrow> distinct as \<Longrightarrow>
   send_all b as h = Some (\<lambda>a. if a \<in> set as then try_send b (the (h a)) else h a)"
proof (induction as arbitrary: h)
  case Nil
  then show ?case by simp
next
  case (Cons a as)
  from Cons.prems obtain c where c: "h a = Some c" "\<not> chan_closed c"
    by (auto simp: live_def)
  then have "\<exists>c'. try_send b c = Some c'"
    by (simp add: try_send_def)
  then obtain c' where c': "try_send b c = Some c'" ..
  have l: "live (h(a \<mapsto> c')) as" using Cons.prems
    by (auto simp: live_def)
  have d: "distinct as" "a \<notin> set as" using Cons.prems by auto
  have "send_all b (a # as) h = send_all b as (h(a \<mapsto> c'))" using c c' by simp
  also have "\<dots> = Some (\<lambda>x. if x \<in> set as then try_send b (the ((h(a \<mapsto> c')) x))
                              else (h(a \<mapsto> c')) x)"
    by (rule Cons.IH[OF l d(1)])
  also have "(\<lambda>x. if x \<in> set as then try_send b (the ((h(a \<mapsto> c')) x))
                              else (h(a \<mapsto> c')) x)
             = (\<lambda>x. if x \<in> set (a # as) then try_send b (the (h x)) else h x)"
    using d c c' by (auto simp: fun_eq_iff)
  finally show ?case .
qed

lemma RUnlock_RLock_chans:
  "mu s = Free \<Longrightarrow> RUnlock (s\<lparr>mu := RLocked 1, chans := h\<rparr>) = s\<lparr>chans := h\<rparr>"
  by (cases s) (simp add: RUnlock_def)

lemma registry_live: "registry_ok s \<Longrightarrow> live (chans s) (subs_of s k) \<and> distinct (subs_of s k)"
  by (auto simp: registry_ok_def live_def subs_of_def split: option.splits)

lemma subs_of_upd [simp]:
  "subs_of (s\<lparr>mu := x\<rparr>) k = subs_of s k"
  "subs_of (s\<lparr>disk := d\<rparr>) k = subs_of s k"
  "subs_of (s\<lparr>chans := h\<rparr>) k = subs_of s k"
  "subs_of (s\<lparr>boards := bs\<rparr>) k = subs_of s k"
  by (simp_all add: subs_of_def)

lemma broadcast_Free:
  assumes "mu s = Free" "registry_ok s"
  shows "broadcast k m s = Returned (s\<lparr>chans := (\<lambda>a. if a \<in> set (subs_of s k)
                                 then try_send m (the (chans s a)) else chans s a)\<rparr>)"
proof -
  have r: "RLock s = Some (s\<lparr>mu := RLocked 1\<rparr>)" using assms(1) by (simp add: RLock_def)
  from registry_live[OF assms(2), of k] have
    "send_all m (subs_of s k) (chans s) = Some (\<lambda>a. if a \<in> set (subs_of s k)
                                 then try_send m (the (chans s a)) else chans s a)"
    using send_all_live by blast
  then show ?thesis using assms(1) RUnlock_RLock_chans[OF assms(1)]
    by (simp add: broadcast_def r del: One_nat_def)
qed

lemma registry_ok_disk: "registry_ok (s\<lparr>disk := d\<rparr>) = registry_ok s"
  by (simp add: registry_ok_def)

lemma commit_Free:
  assumes "mu s = Free" "registry_ok s"
  shows "commit io_ok k m r s = (Returned (Inr r), after_commit io_ok k m s)"
proof -
  let ?s1 = "s\<lparr>disk := (if io_ok then encode_boards (boards s) # disk s else disk s)\<rparr>"
  have sv: "save io_ok s = Some ?s1" using assms(1) by (simp add: save_Free)
  have "mu ?s1 = Free" "registry_ok ?s1" using assms by (simp_all add: registry_ok_disk)
  from broadcast_Free[OF this, of k m]
  have "broadcast k m ?s1 = Returned (after_commit io_ok k m s)"
    by (simp add: after_commit_def cong: if_cong)
  then show ?thesis by (simp add: commit_def sv)
qed

lemma index_where_None: "(index_where P xs = None) = (\<forall>x \<in> set xs. \<not> P x)"
  by (induction xs) auto

lemma index_where_Some:
  "index_where P xs = Some i \<Longrightarrow> i < length xs \<and> P (xs ! i) \<and> (\<forall>j < i. \<not> P (xs ! j))"
proof (induction xs arbitrary: i)
  case Nil
  then show ?case by simp
next
  case (Cons x xs)
  show ?case
  proof (cases "P x")
    case True
    with Cons.prems show ?thesis by simp
  next
    case False
    with Cons.prems obtain i' where i': "index_where P xs = Some i'" "i = Suc i'"
      by auto
    from Cons.IH[OF i'(1)] False i'(2) show ?thesis
      by (auto simp: less_Suc_eq_0_disj)
  qed
qed

lemma registry_ok_boards [simp]: "registry_ok (s\<lparr>boards := bs\<rparr>) = registry_ok s"
  by (simp add: registry_ok_def)

lemma Unlock_Lock_boards:
  "mu s = Free \<Longrightarrow> Unlock (s\<lparr>mu := WLocked, boards := bs\<rparr>) = s\<lparr>boards := bs\<rparr>"
  by (cases s) (simp add: Unlock_def)

lemma Unlock_Lock: "mu s = Free \<Longrightarrow> Unlock (s\<lparr>mu := WLocked\<rparr>) = s"
  by (cases s) (simp add: Unlock_def)

lemma after_commit_boards [simp]: "boards (after_commit io_ok k m s) = boards s"
  by (simp add: after_commit_def)

section \<open>Positions and the board map\<close>

lemma length_renumber_from [simp]: "length (renumber_from i cs) = length cs"
  by (induction cs arbitrary: i) simp_all

lemma renumber_from_nth:
  "j < length cs \<Longrightarrow> renumber_from i cs ! j = (cs ! j)\<lparr>card_position := int (i + j)\<rparr>"
proof (induction cs arbitrary: i j)
  case Nil
  then show ?case by simp
next
  case (Cons c cs)
  show ?case
  proof (cases j)
    case 0
    then show ?thesis by simp
  next
    case (Suc j')
    with Cons.prems have "j' < length cs" by simp
    from Cons.IH[OF this, of "Suc i"] Suc show ?thesis by simp
  qed
qed

lemma length_renumber [simp]: "length (renumber cs) = length cs"
  by (simp add: renumber_def)

lemma renumber_nth: "j < length cs \<Longrightarrow> renumber cs ! j = (cs ! j)\<lparr>card_position := int j\<rparr>"
  by (simp add: renumber_def renumber_from_nth)

lemma cards_ok_iff: "cards_ok cs = (\<forall>j < length cs. card_position (cs ! j) = int j)"
proof
  assume "cards_ok cs"
  then have "map card_position cs = map int [0..<length cs]" by (simp add: cards_ok_def)
  then have "\<forall>j < length cs. map card_position cs ! j = map int [0..<length cs] ! j" by simp
  then show "\<forall>j < length cs. card_position (cs ! j) = int j" by simp
next
  assume a: "\<forall>j < length cs. card_position (cs ! j) = int j"
  show "cards_ok cs" unfolding cards_ok_def
    by (rule nth_equalityI) (use a in simp_all)
qed

lemma cards_ok_renumber: "cards_ok (renumber cs)"
  by (simp add: cards_ok_iff renumber_nth)

lemma cards_ok_append:
  "cards_ok cs \<Longrightarrow> card_position c = int (length cs) \<Longrightarrow> cards_ok (cs @ [c])"
  by (auto simp: cards_ok_iff nth_append less_Suc_eq)

lemma lists_ok_iff:
  "lists_ok ls = (\<forall>j < length ls. lst_position (ls ! j) = int j \<and> cards_ok (lst_cards (ls ! j)))"
proof
  assume "lists_ok ls"
  then have m: "map lst_position ls = map int [0..<length ls]"
    and c: "list_all (\<lambda>l. cards_ok (lst_cards l)) ls" by (simp_all add: lists_ok_def)
  from m have "\<forall>j < length ls. map lst_position ls ! j = map int [0..<length ls] ! j" by simp
  then have "\<forall>j < length ls. lst_position (ls ! j) = int j" by simp
  with c show "\<forall>j < length ls. lst_position (ls ! j) = int j \<and> cards_ok (lst_cards (ls ! j))"
    by (simp add: list_all_length)
next
  assume a: "\<forall>j < length ls. lst_position (ls ! j) = int j \<and> cards_ok (lst_cards (ls ! j))"
  have "map lst_position ls = map int [0..<length ls]"
    by (rule nth_equalityI) (use a in simp_all)
  with a show "lists_ok ls" by (simp add: lists_ok_def list_all_length)
qed

lemma lists_ok_update:
  "lists_ok ls \<Longrightarrow> cards_ok cs \<Longrightarrow> lists_ok (ls[i := (ls ! i)\<lparr>lst_cards := cs\<rparr>])"
  by (cases "i < length ls") (auto simp: lists_ok_iff nth_list_update)

lemma lists_ok_append:
  "lists_ok ls \<Longrightarrow> lst_position l = int (length ls) \<Longrightarrow> cards_ok (lst_cards l)
   \<Longrightarrow> lists_ok (ls @ [l])"
  by (auto simp: lists_ok_iff nth_append less_Suc_eq)

lemma take_card_lists_ok:
  "take_card rq b = Inr (c, b1) \<Longrightarrow> lists_ok (board_lists b) \<Longrightarrow> lists_ok (board_lists b1)"
  by (auto simp: take_card_def Let_def lists_ok_update cards_ok_renumber split: option.splits)

lemma put_card_lists_ok:
  "put_card rq c b = Inr (t, p, b2) \<Longrightarrow> lists_ok (board_lists b) \<Longrightarrow> lists_ok (board_lists b2)"
  by (auto simp: put_card_def Let_def lists_ok_update cards_ok_renumber split: option.splits)

lemma RUnlock_fields [simp]:
  "boards (RUnlock s) = boards s" "streams (RUnlock s) = streams s"
  "chans (RUnlock s) = chans s" "nchan (RUnlock s) = nchan s" "disk (RUnlock s) = disk s"
  by (simp_all add: RUnlock_def split: lockst.splits nat.splits)

lemma save_boards: "save io_ok s = Some s' \<Longrightarrow> boards s' = boards s"
  by (auto simp: save_def RLock_def split: lockst.splits if_splits)

lemma broadcast_boards: "broadcast k m s = Returned s' \<Longrightarrow> boards s' = boards s"
  by (auto simp: broadcast_def RLock_def split: lockst.splits option.splits)

lemma commit_boards [simp]: "boards (snd (commit io_ok k m r s)) = boards s"
  by (auto simp: commit_def save_boards broadcast_boards split: option.splits outcome.splits)

lemma commit_not_error: "fst (commit io_ok k m r s) \<noteq> Returned (Inl e)"
  by (auto simp: commit_def split: option.splits outcome.splits)

text \<open>What each handler does to the board map.\<close>

lemma createBoard_boards:
  "boards (snd (createBoard req now io_ok s)) = boards s
   \<or> (\<exists>title. req = Some title \<and> title \<noteq> [] \<and> boards (snd (createBoard req now io_ok s))
         = (boards s)(now \<mapsto> \<lparr>board_id = now, board_title = title, board_lists = [],
                                board_events = 0\<rparr>))"
  by (auto simp: createBoard_def Lock_def Unlock_def Let_def save_boards
           split: option.splits lockst.splits)

lemma createList_boards:
  "boards (snd (createList k req now io_ok s)) = boards s
   \<or> (\<exists>title b. req = Some title \<and> title \<noteq> [] \<and> boards s k = Some b
        \<and> boards (snd (createList k req now io_ok s)) = (boards s)(k \<mapsto>
             b\<lparr>board_lists := board_lists b @ [\<lparr>lst_id = now, lst_title = title,
                              lst_position = int (length (board_lists b)), lst_cards = []\<rparr>],
               board_events := board_events b + 1\<rparr>))"
  by (auto simp: createList_def Lock_def Unlock_def Let_def
           split: option.splits lockst.splits)

lemma createCard_decoded_boards:
  "boards (snd (createCard_decoded k lid req new_id io_ok s)) = boards s
   \<or> (\<exists>rq b i. req = Some rq \<and> req_title rq \<noteq> [] \<and> boards s k = Some b
        \<and> index_where (\<lambda>l. lst_id l = lid) (board_lists b) = Some i
        \<and> boards (snd (createCard_decoded k lid req new_id io_ok s)) = (boards s)(k \<mapsto>
             b\<lparr>board_lists := (board_lists b)[i := (board_lists b ! i)
                   \<lparr>lst_cards := lst_cards (board_lists b ! i) @
                      [\<lparr>card_id = new_id, card_title = req_title rq,
                        card_description = req_description rq,
                        card_position = int (length (lst_cards (board_lists b ! i))),
                        card_due = req_due rq\<rparr>]\<rparr>],
               board_events := board_events b + 1\<rparr>))"
  by (auto simp: createCard_decoded_def Lock_def Unlock_def Let_def
           split: option.splits lockst.splits)

lemma moveCard_boards:
  "boards (snd (moveCard k req io_ok s)) = boards s
   \<or> (\<exists>rq b c b1. req = Some rq \<and> mu s = Free \<and> boards s k = Some b
          \<and> take_card rq b = Inr (c, b1)
          \<and> ((\<exists>e. put_card rq c b1 = Inl e
                  \<and> fst (moveCard k req io_ok s) = Returned (Inl e)
                  \<and> boards (snd (moveCard k req io_ok s)) = (boards s)(k \<mapsto> b1))
             \<or> (\<exists>t p b2. put_card rq c b1 = Inr (t, p, b2)
                  \<and> fst (moveCard k req io_ok s) = Blocks
                  \<and> boards (snd (moveCard k req io_ok s)) = (boards s)(k \<mapsto> b2))))"
  by (auto simp: moveCard_def Lock_def Unlock_def Let_def commit_WLocked
           split: option.splits lockst.splits sum.splits prod.splits)

lemma store_ok_same: "boards s' = boards s \<Longrightarrow> store_ok s \<Longrightarrow> store_ok s'"
  by (simp add: store_ok_def)

lemma store_ok_upd:
  "boards s' = (boards s)(k \<mapsto> b) \<Longrightarrow> store_ok s \<Longrightarrow> lists_ok (board_lists b) \<Longrightarrow> store_ok s'"
  by (simp add: store_ok_def)

lemma store_ok_board: "store_ok s \<Longrightarrow> boards s k = Some b \<Longrightarrow> lists_ok (board_lists b)"
  by (auto simp: store_ok_def)

lemma lists_ok_Nil: "lists_ok []"
  by (simp add: lists_ok_def)

lemma cards_ok_Nil: "cards_ok []"
  by (simp add: cards_ok_def)

lemma store_ok_createBoard: "store_ok s \<Longrightarrow> store_ok (snd (createBoard req now io_ok s))"
  using createBoard_boards[of req now io_ok s]
  by (auto intro: store_ok_same store_ok_upd simp: lists_ok_Nil)

lemma store_ok_createList:
  assumes "store_ok s" shows "store_ok (snd (createList k req now io_ok s))"
proof -
  from createList_boards[of k req now io_ok s] show ?thesis
  proof (elim disjE exE conjE)
    assume "boards (snd (createList k req now io_ok s)) = boards s"
    then show ?thesis using assms by (rule store_ok_same)
  next
    fix title b
    assume b: "boards s k = Some b"
      and u: "boards (snd (createList k req now io_ok s)) = (boards s)(k \<mapsto>
             b\<lparr>board_lists := board_lists b @ [\<lparr>lst_id = now, lst_title = title,
                              lst_position = int (length (board_lists b)), lst_cards = []\<rparr>],
               board_events := board_events b + 1\<rparr>)"
    have "lists_ok (board_lists b)" using assms b by (rule store_ok_board)
    then have "lists_ok (board_lists b @ [\<lparr>lst_id = now, lst_title = title,
                              lst_position = int (length (board_lists b)), lst_cards = []\<rparr>])"
      by (rule lists_ok_append) (simp_all add: cards_ok_Nil)
    then show ?thesis using u assms by (auto intro: store_ok_upd)
  qed
qed

lemma store_ok_createCard_decoded:
  assumes "store_ok s" shows "store_ok (snd (createCard_decoded k lid req new_id io_ok s))"
proof -
  from createCard_decoded_boards[of k lid req new_id io_ok s] show ?thesis
  proof (elim disjE exE conjE)
    assume "boards (snd (createCard_decoded k lid req new_id io_ok s)) = boards s"
    then show ?thesis using assms by (rule store_ok_same)
  next
    fix rq :: card_req and b :: board and i :: nat
    let ?c = "\<lparr>card_id = new_id, card_title = req_title rq,
                        card_description = req_description rq,
                        card_position = int (length (lst_cards (board_lists b ! i))),
                        card_due = req_due rq\<rparr>"
    assume b: "boards s k = Some b"
      and i: "index_where (\<lambda>l. lst_id l = lid) (board_lists b) = Some i"
      and u: "boards (snd (createCard_decoded k lid req new_id io_ok s)) = (boards s)(k \<mapsto>
             b\<lparr>board_lists := (board_lists b)[i := (board_lists b ! i)
                   \<lparr>lst_cards := lst_cards (board_lists b ! i) @ [?c]\<rparr>],
               board_events := board_events b + 1\<rparr>)"
    have l: "lists_ok (board_lists b)" using assms b by (rule store_ok_board)
    have "i < length (board_lists b)" using index_where_Some[OF i] by simp
    with l have "cards_ok (lst_cards (board_lists b ! i))" by (simp add: lists_ok_iff)
    then have "cards_ok (lst_cards (board_lists b ! i) @ [?c])"
      by (rule cards_ok_append) simp
    with l have "lists_ok ((board_lists b)[i := (board_lists b ! i)
                   \<lparr>lst_cards := lst_cards (board_lists b ! i) @ [?c]\<rparr>])"
      by (rule lists_ok_update)
    then show ?thesis using u assms by (auto intro: store_ok_upd)
  qed
qed

lemma store_ok_moveCard:
  assumes "store_ok s" shows "store_ok (snd (moveCard k req io_ok s))"
proof -
  from moveCard_boards[of k req io_ok s] show ?thesis
  proof (elim disjE exE conjE)
    assume "boards (snd (moveCard k req io_ok s)) = boards s"
    then show ?thesis using assms by (rule store_ok_same)
  next
    fix rq b c b1 e
    assume b: "boards s k = Some b" and t: "take_card rq b = Inr (c, b1)"
      and u: "boards (snd (moveCard k req io_ok s)) = (boards s)(k \<mapsto> b1)"
    have "lists_ok (board_lists b)" using assms b by (rule store_ok_board)
    with t have "lists_ok (board_lists b1)" by (rule take_card_lists_ok)
    with u assms show ?thesis by (auto intro: store_ok_upd)
  next
    fix rq b c b1 t p b2
    assume b: "boards s k = Some b" and t: "take_card rq b = Inr (c, b1)"
      and pc: "put_card rq c b1 = Inr (t, p, b2)"
      and u: "boards (snd (moveCard k req io_ok s)) = (boards s)(k \<mapsto> b2)"
    have "lists_ok (board_lists b)" using assms b by (rule store_ok_board)
    with t have "lists_ok (board_lists b1)" by (rule take_card_lists_ok)
    with pc have "lists_ok (board_lists b2)" by (rule put_card_lists_ok)
    with u assms show ?thesis by (auto intro: store_ok_upd)
  qed
qed

lemma subscribe_boards: "subscribe k s = Returned (ch, s') \<Longrightarrow> boards s' = boards s"
  by (auto simp: subscribe_def Lock_def Unlock_def Let_def split: lockst.splits)

lemma cancel_boards: "cancel k ch s = Returned s' \<Longrightarrow> boards s' = boards s"
  by (auto simp: cancel_def Lock_def Unlock_def Let_def split: lockst.splits option.splits if_splits)


lemma clamp_pos_le: "clamp_pos p n \<le> n"
proof (cases "p < 0 \<or> p > int n")
  case True
  then show ?thesis by (simp add: clamp_pos_def)
next
  case False
  then have "nat p \<le> n" by linarith
  with False show ?thesis by (simp add: clamp_pos_def)
qed

lemma map_card_id_renumber_from: "map card_id (renumber_from i cs) = map card_id cs"
  by (induction cs arbitrary: i) simp_all

lemma map_card_id_renumber [simp]: "map card_id (renumber cs) = map card_id cs"
  by (simp add: renumber_def map_card_id_renumber_from)

lemma put_card_at:
  assumes "index_where (\<lambda>l. lst_id l = ToListID rq) (board_lists b1) = Some ti"
  shows "\<exists>b2. put_card rq c b1 = Inr (lst_id (board_lists b1 ! ti),
                   clamp_pos (ToPos rq) (length (lst_cards (board_lists b1 ! ti))), b2)
     \<and> board_events b2 = board_events b1 + 1
     \<and> length (lst_cards (board_lists b2 ! ti)) = Suc (length (lst_cards (board_lists b1 ! ti)))
     \<and> lst_cards (board_lists b2 ! ti)
          ! clamp_pos (ToPos rq) (length (lst_cards (board_lists b1 ! ti)))
        = c\<lparr>card_position := int (clamp_pos (ToPos rq) (length (lst_cards (board_lists b1 ! ti))))\<rparr>
     \<and> map card_id (lst_cards (board_lists b2 ! ti))
        = map card_id (take (clamp_pos (ToPos rq) (length (lst_cards (board_lists b1 ! ti))))
                          (lst_cards (board_lists b1 ! ti)))
          @ card_id c #
          map card_id (drop (clamp_pos (ToPos rq) (length (lst_cards (board_lists b1 ! ti))))
                          (lst_cards (board_lists b1 ! ti)))"
proof -
  let ?old = "lst_cards (board_lists b1 ! ti)"
  let ?p = "clamp_pos (ToPos rq) (length ?old)"
  have ti: "ti < length (board_lists b1)" using index_where_Some[OF assms] by simp
  have p: "?p \<le> length ?old" by (rule clamp_pos_le)
  have n: "(take ?p ?old @ [c] @ drop ?p ?old) ! ?p = c"
    using p by (simp add: nth_append)
  have "renumber (take ?p ?old @ [c] @ drop ?p ?old) ! ?p = c\<lparr>card_position := int ?p\<rparr>"
    using p n by (simp add: renumber_nth)
  then show ?thesis using assms ti p
    by (simp add: put_card_def Let_def)
qed

section \<open>Counting events\<close>

lemma sint_incr:
  fixes n :: "64 word"
  shows "sint (n + 1) = (if sint n = 2 ^ 63 - 1 then - (2 ^ 63) else sint n + 1)"
proof (cases "sint n = 2 ^ 63 - 1")
  case True
  then have "sint n = sint (9223372036854775807 :: 64 word)" by simp
  then have "n = 9223372036854775807" by (rule signed_word_eqI)
  then show ?thesis by simp
next
  case False
  have lo: "- (2 ^ 63) \<le> sint n" using sint_ge[of n] by simp
  have hi: "sint n < 2 ^ 63" using sint_lt[of n] by simp
  have "sint (n + 1) = signed_take_bit 63 (sint n + 1)"
    by (simp add: sint_word_ariths)
  also have "\<dots> = sint n + 1"
    by (rule signed_take_bit_int_eq_self) (use lo hi False in simp_all)
  finally show ?thesis using False by simp
qed

lemma counted_upd:
  "boards s k = Some b \<Longrightarrow> boards s' k = Some b' \<Longrightarrow> board_events b' = board_events b + 1
   \<Longrightarrow> counted k s s'"
  by (simp add: counted_def events_of_def sint_incr)

lemma others_kept_upd: "boards s' = (boards s)(k \<mapsto> b) \<Longrightarrow> others_kept k s s'"
  by (simp add: others_kept_def events_of_def)

lemma others_kept_same: "boards s' = boards s \<Longrightarrow> others_kept k s s'"
  by (simp add: others_kept_def events_of_def)

lemma take_card_events: "take_card rq b = Inr (c, b1) \<Longrightarrow> board_events b1 = board_events b"
  by (auto simp: take_card_def Let_def split: option.splits)

lemma put_card_events: "put_card rq c b1 = Inr (t, p, b2) \<Longrightarrow> board_events b2 = board_events b1 + 1"
  by (auto simp: put_card_def Let_def split: option.splits)

lemma createBoard_others: "others_kept now s (snd (createBoard req now io_ok s))"
  using createBoard_boards[of req now io_ok s] by (auto intro: others_kept_upd others_kept_same)

lemma createList_others: "others_kept k s (snd (createList k req now io_ok s))"
  using createList_boards[of k req now io_ok s] by (auto intro: others_kept_upd others_kept_same)

lemma createCard_decoded_others: "others_kept k s (snd (createCard_decoded k lid req new_id io_ok s))"
  using createCard_decoded_boards[of k lid req new_id io_ok s]
  by (auto intro: others_kept_upd others_kept_same)

lemma moveCard_others: "others_kept k s (snd (moveCard k req io_ok s))"
  using moveCard_boards[of k req io_ok s] by (auto intro: others_kept_upd others_kept_same)

lemma createBoard_error:
  "fst (createBoard req now io_ok s) = Returned (Inl e) \<Longrightarrow> snd (createBoard req now io_ok s) = s"
  by (auto simp: createBoard_def Lock_def Let_def split: option.splits lockst.splits if_splits)

lemma createBoard_ok:
  "fst (createBoard req now io_ok s) = Returned (Inr b)
   \<Longrightarrow> events_of (snd (createBoard req now io_ok s)) now = Some 0"
  by (auto simp: createBoard_def Lock_def Unlock_def Let_def events_of_def save_boards
           split: option.splits lockst.splits if_splits)

lemma createList_error:
  "fst (createList k req now io_ok s) = Returned (Inl e) \<Longrightarrow> snd (createList k req now io_ok s) = s"
  by (auto simp: createList_def Lock_def Unlock_def Let_def commit_not_error
           split: option.splits lockst.splits if_splits)

lemma createCard_decoded_error:
  "fst (createCard_decoded k lid req new_id io_ok s) = Returned (Inl e)
   \<Longrightarrow> snd (createCard_decoded k lid req new_id io_ok s) = s"
  by (auto simp: createCard_decoded_def Lock_def Unlock_def Let_def commit_not_error
           split: option.splits lockst.splits if_splits)

lemma createList_ok:
  "fst (createList k req now io_ok s) = Returned (Inr l)
   \<Longrightarrow> counted k s (snd (createList k req now io_ok s))"
  by (auto simp: createList_def Lock_def Unlock_def Let_def
           split: option.splits lockst.splits if_splits intro!: counted_upd)

lemma createCard_decoded_ok:
  "fst (createCard_decoded k lid req new_id io_ok s) = Returned (Inr c)
   \<Longrightarrow> counted k s (snd (createCard_decoded k lid req new_id io_ok s))"
  by (auto simp: createCard_decoded_def Lock_def Unlock_def Let_def
           split: option.splits lockst.splits if_splits intro!: counted_upd)

lemma moveCard_error_events:
  assumes "fst (moveCard k req io_ok s) = Returned (Inl e)"
  shows "events_of (snd (moveCard k req io_ok s)) k' = events_of s k'"
  using moveCard_boards[of k req io_ok s] assms
  by (auto simp: events_of_def dest: take_card_events)

lemma counted_move:
  "boards s k = Some b \<Longrightarrow> take_card rq b = Inr (c, b1) \<Longrightarrow> put_card rq c b1 = Inr (t, p, b2)
   \<Longrightarrow> boards s' k = Some b2 \<Longrightarrow> counted k s s'"
proof -
  assume a: "boards s k = Some b" "take_card rq b = Inr (c, b1)"
    "put_card rq c b1 = Inr (t, p, b2)" "boards s' k = Some b2"
  have "board_events b2 = board_events b + 1"
    using take_card_events[OF a(2)] put_card_events[OF a(3)] by simp
  with a(1,4) show ?thesis by (rule counted_upd)
qed

lemma moveCard_blocks_counted:
  assumes "mu s = Free" "fst (moveCard k req io_ok s) = Blocks"
  shows "counted k s (snd (moveCard k req io_ok s))"
  using assms
  by (auto simp: moveCard_def Lock_def Unlock_def Let_def commit_WLocked
           split: option.splits sum.splits prod.splits elim: counted_move)

section \<open>Handlers that return, subscribe and cancel\<close>

lemma try_send_open:
  "\<not> chan_closed c \<Longrightarrow> try_send m c
     = Some (if length (chan_buf c) < chan_cap c then c\<lparr>chan_buf := chan_buf c @ [m]\<rparr> else c)"
  by (simp add: try_send_def)

lemma createList_Free:
  assumes "mu s = Free" "registry_ok s" "title \<noteq> []" "boards s k = Some b"
  shows "fst (createList k (Some title) now io_ok s)
           = Returned (Inr \<lparr>lst_id = now, lst_title = title,
                             lst_position = int (length (board_lists b)), lst_cards = []\<rparr>)"
proof -
  let ?l = "\<lparr>lst_id = now, lst_title = title,
                             lst_position = int (length (board_lists b)), lst_cards = []\<rparr>"
  let ?bs = "(boards s)(k \<mapsto> b\<lparr>board_lists := board_lists b @ [?l],
                                board_events := board_events b + 1\<rparr>)"
  have m: "mu (s\<lparr>boards := ?bs\<rparr>) = Free" "registry_ok (s\<lparr>boards := ?bs\<rparr>)"
    using assms by simp_all
  show ?thesis
    using assms commit_Free[OF m, of io_ok k "ListCreated ?l" ?l]
    by (simp add: createList_def Lock_Free Unlock_Lock_boards Let_def)
qed

lemma createCard_decoded_Free:
  assumes "mu s = Free" "registry_ok s" "req_title rq \<noteq> []" "boards s k = Some b"
    "index_where (\<lambda>l. lst_id l = lid) (board_lists b) = Some i"
  shows "fst (createCard_decoded k lid (Some rq) new_id io_ok s)
           = Returned (Inr \<lparr>card_id = new_id, card_title = req_title rq,
                       card_description = req_description rq,
                       card_position = int (length (lst_cards (board_lists b ! i))),
                       card_due = req_due rq\<rparr>)"
proof -
  let ?c = "\<lparr>card_id = new_id, card_title = req_title rq,
                       card_description = req_description rq,
                       card_position = int (length (lst_cards (board_lists b ! i))),
                       card_due = req_due rq\<rparr>"
  let ?bs = "(boards s)(k \<mapsto>
                    b\<lparr>board_lists := (board_lists b)[i := (board_lists b ! i)
                          \<lparr>lst_cards := lst_cards (board_lists b ! i) @ [?c]\<rparr>],
                      board_events := board_events b + 1\<rparr>)"
  have m: "mu (s\<lparr>boards := ?bs\<rparr>) = Free" "registry_ok (s\<lparr>boards := ?bs\<rparr>)"
    using assms by simp_all
  show ?thesis
    using assms commit_Free[OF m, of io_ok k "CardCreated ?c" ?c]
    by (simp add: createCard_decoded_def Lock_Free Unlock_Lock_boards Let_def)
qed

lemma registry_ok_fanout_store: "registry_ok fanout_store"
  by (auto simp: registry_ok_def fanout_store_def NewStore_def split: if_splits)

lemma Unlock_Lock_streams:
  "mu s = Free \<Longrightarrow> Unlock (s\<lparr>mu := WLocked, streams := st\<rparr>) = s\<lparr>streams := st\<rparr>"
  by (cases s) (simp add: Unlock_def)

lemma subscribe_Free:
  assumes "mu s = Free"
  shows "subscribe k s = Returned (nchan s,
           s\<lparr>chans := (chans s)(nchan s \<mapsto> \<lparr>chan_buf = [], chan_cap = 16, chan_closed = False\<rparr>),
             nchan := Suc (nchan s),
             streams := (streams s)(k \<mapsto> List.insert (nchan s) (subs_of s k))\<rparr>)"
  using assms by (cases s) (simp add: subscribe_def Lock_def Unlock_def Let_def subs_of_def)

lemma registry_fresh: "registry_ok s \<Longrightarrow> chans s (nchan s) = None"
  by (cases "chans s (nchan s)") (auto simp: registry_ok_def)

lemma registry_ok_subscribe:
  assumes "registry_ok s"
  shows "registry_ok (s\<lparr>chans := (chans s)(nchan s \<mapsto> \<lparr>chan_buf = [], chan_cap = 16, chan_closed = False\<rparr>),
             nchan := Suc (nchan s),
             streams := (streams s)(k \<mapsto> List.insert (nchan s) (subs_of s k))\<rparr>)"
proof -
  have d: "distinct (subs_of s k)" using registry_live[OF assms] by simp
  have f: "chans s (nchan s) = None" using assms by (rule registry_fresh)
  show ?thesis
    unfolding registry_ok_def
  proof (intro conjI allI impI ballI)
    fix k' subs
    assume a: "streams (s\<lparr>chans := (chans s)(nchan s \<mapsto> \<lparr>chan_buf = [], chan_cap = 16, chan_closed = False\<rparr>),
             nchan := Suc (nchan s),
             streams := (streams s)(k \<mapsto> List.insert (nchan s) (subs_of s k))\<rparr>) k' = Some subs"
    show "distinct subs"
      using a d assms by (auto simp: registry_ok_def split: if_splits)
    fix a' assume "a' \<in> set subs"
    then show "\<exists>c. chans (s\<lparr>chans := (chans s)(nchan s \<mapsto> \<lparr>chan_buf = [], chan_cap = 16, chan_closed = False\<rparr>),
             nchan := Suc (nchan s),
             streams := (streams s)(k \<mapsto> List.insert (nchan s) (subs_of s k))\<rparr>) a' = Some c \<and> \<not> chan_closed c"
      using a assms by (auto simp: registry_ok_def subs_of_def split: if_splits option.splits)
  next
    fix a c
    assume "chans (s\<lparr>chans := (chans s)(nchan s \<mapsto> \<lparr>chan_buf = [], chan_cap = 16, chan_closed = False\<rparr>),
             nchan := Suc (nchan s),
             streams := (streams s)(k \<mapsto> List.insert (nchan s) (subs_of s k))\<rparr>) a = Some c"
    then show "a < nchan (s\<lparr>chans := (chans s)(nchan s \<mapsto> \<lparr>chan_buf = [], chan_cap = 16, chan_closed = False\<rparr>),
             nchan := Suc (nchan s),
             streams := (streams s)(k \<mapsto> List.insert (nchan s) (subs_of s k))\<rparr>)"
       and "chan_cap c = 16"
      using assms by (auto simp: registry_ok_def less_Suc_eq split: if_splits)
  qed
qed

lemma cancel_Free:
  assumes "mu t = Free" "chans t ch = Some c" "\<not> chan_closed c"
  shows "cancel k ch t = Returned (t\<lparr>streams := (case streams t k of None \<Rightarrow> streams t
                                          | Some subs \<Rightarrow> (streams t)(k \<mapsto> removeAll ch subs)),
                                   chans := (chans t)(ch \<mapsto> c\<lparr>chan_closed := True\<rparr>)\<rparr>)"
  using assms by (cases t) (auto simp: cancel_def Lock_def Unlock_def Let_def split: option.splits)

section \<open>Decoding what was encoded\<close>

lemma int64_field_sint:
  "map_of fs k = Some (JNum (sint (w :: 64 word))) \<Longrightarrow> int64_field fs k = Some w"
proof -
  assume a: "map_of fs k = Some (JNum (sint w))"
  have "- (2 ^ 63) \<le> sint w" using sint_ge[of w] by simp
  moreover have "sint w < 2 ^ 63" using sint_lt[of w] by simp
  ultimately show ?thesis using a by (simp add: int64_field_def num_field_def)
qed

lemma decode_encode_card: "decode_card (encode_card c) = Some c"
proof (cases "card_due c")
  case None
  then show ?thesis
    by (cases c) (simp add: decode_card_def encode_card_def int64_field_sint str_field_def
          num_field_def time_field_def)
next
  case (Some d)
  then show ?thesis
    by (cases c) (simp add: decode_card_def encode_card_def int64_field_sint str_field_def
          num_field_def time_field_def)
qed

lemma decode_all_map:
  assumes "\<And>x. f (g x) = Some x"
  shows "decode_all f (map g xs) = Some xs"
  by (induction xs) (simp_all add: assms)

lemma decode_encode_lst: "decode_lst (encode_lst l) = Some l"
  by (cases l) (simp add: decode_lst_def encode_lst_def int64_field_sint str_field_def
        num_field_def arr_field_def decode_all_map decode_encode_card)

lemma decode_encode_board: "decode_board (encode_board b) = Some b"
  by (cases b) (simp add: decode_board_def encode_board_def int64_field_sint str_field_def
        arr_field_def decode_all_map decode_encode_lst)

lemma decode_boards_entries:
  assumes "set ks \<subseteq> dom m"
  shows "decode_boards (map (\<lambda>k. (k, encode_board (the (m k)))) ks) m0
           = (\<lambda>k. if k \<in> set ks then m k else m0 k, None)"
  using assms
proof (induction ks arbitrary: m0)
  case Nil
  then show ?case by simp
next
  case (Cons k ks)
  then obtain b where b: "m k = Some b" by auto
  have s: "set ks \<subseteq> dom m" using Cons.prems by simp
  have "decode_boards (map (\<lambda>k. (k, encode_board (the (m k)))) (k # ks)) m0
          = decode_boards (map (\<lambda>k. (k, encode_board (the (m k)))) ks) (m0(k \<mapsto> b))"
    using b by (simp add: decode_encode_board)
  also have "\<dots> = (\<lambda>x. if x \<in> set ks then m x else (m0(k \<mapsto> b)) x, None)"
    by (rule Cons.IH[OF s])
  also have "(\<lambda>x. if x \<in> set ks then m x else (m0(k \<mapsto> b)) x)
               = (\<lambda>x. if x \<in> set (k # ks) then m x else m0 x)"
    using b by (auto simp: fun_eq_iff)
  finally show ?case .
qed

lemma decode_encode_boards:
  "decode_boards (encode_boards m) m0 = (m0 ++ m, None)"
proof -
  have f: "finite (dom m)" by simp
  have "decode_boards (encode_boards m) m0
          = (\<lambda>k. if k \<in> set (sorted_list_of_set (dom m)) then m k else m0 k, None)"
    unfolding encode_boards_def by (rule decode_boards_entries) (simp add: f)
  also have "(\<lambda>k. if k \<in> set (sorted_list_of_set (dom m)) then m k else m0 k) = m0 ++ m"
    using f by (auto simp: fun_eq_iff map_add_def split: option.splits)
  finally show ?thesis .
qed

lemma map_add_same: "m ++ m = m"
  by (auto simp: fun_eq_iff map_add_def split: option.splits)

section \<open>The decode of a card creation\<close>

lemma decode_card_req_title:
  "decode_card_req j = Some rq \<Longrightarrow> req_title rq = []"
  by (auto simp: decode_card_req_def split: json.splits option.splits)

text \<open>Whatever the body, the board and the list, \<open>createCard\<close> answers "title required".\<close>

lemma createCard_rejects:
  "createCard k lid body new_id io_ok s = (Returned (Inl (InvalidInput ''title required'')), s)"
proof (cases "case body of None \<Rightarrow> None | Some j \<Rightarrow> decode_card_req j")
  case None
  then show ?thesis by (simp add: createCard_def createCard_decoded_def)
next
  case (Some rq)
  then have "req_title rq = []"
    by (auto simp: decode_card_req_title split: option.splits)
  with Some show ?thesis by (simp add: createCard_def createCard_decoded_def)
qed

section \<open>Moving a card to a list that does not exist\<close>

text \<open>
  Claim C1.  A \<open>moveCard\<close> whose destination list does not exist returns NotFound, but by
  then the card has been cut out of the source list: on the store with cards 100 and 101 in
  list 10, moving card 100 to the missing list 99 answers "to list not found" and leaves list
  10 with card 101 alone, renumbered to position 0.  Card 100 is gone and the store differs
  from the one before the call.
\<close>

theorem moveCard_missing_destination_loses_card:
  "moveCard 1 (Some \<lparr>CardID = 100, FromListID = 10, ToListID = 99, ToPos = 0\<rparr>) True
     two_card_store
   = (Returned (Inl (NotFound ''to list not found'')),
      NewStore\<lparr>boards := [1 \<mapsto> \<lparr>board_id = 1, board_title = ''B'',
        board_lists = [\<lparr>lst_id = 10, lst_title = ''L'', lst_position = 0,
           lst_cards = [\<lparr>card_id = 101, card_title = ''Z'', card_description = [],
                          card_position = 0, card_due = None\<rparr>]\<rparr>],
        board_events = 2\<rparr>]\<rparr>)
   \<and> snd (moveCard 1 (Some \<lparr>CardID = 100, FromListID = 10, ToListID = 99, ToPos = 0\<rparr>) True
            two_card_store) \<noteq> two_card_store"
  by (simp add: two_card_store_def handler_defs Let_def fun_eq_iff)

section \<open>The scenario\<close>

text \<open>
  Claim C3.  In the scenario the board and the two lists are created, but the card creation
  is answered "title required": the decode never fills the title.  The move then finds no
  card 4 in To Do and answers "card not found".  At the end both lists are empty and the
  event counter is 2, where the claim has Task1 in Done and a counter of 4.
\<close>

theorem scenario_card_rejected:
  "fst scenario_card = Returned (Inl (InvalidInput ''title required''))
   \<and> fst scenario = Returned (Inl (NotFound ''card not found''))
   \<and> mu (snd scenario) = Free
   \<and> boards (snd scenario) 1 = Some \<lparr>board_id = 1, board_title = ''Alpha'',
        board_lists = [\<lparr>lst_id = 2, lst_title = ''To Do'', lst_position = 0, lst_cards = []\<rparr>,
                       \<lparr>lst_id = 3, lst_title = ''Done'', lst_position = 1, lst_cards = []\<rparr>],
        board_events = 2\<rparr>"
  by (simp add: scenario_def scenario_created_def scenario_card_def scenario_lists_def
        handler_defs Let_def)

section \<open>Creating a card\<close>

text \<open>
  Claim C2.  On the store with board 1 and list 10, a card creation with the body
  \<open>{"title": "First Task", "description": "Test task"}\<close> is answered "title required" and
  the store is left as it was: no card is appended, although the board and the list resolve
  and the body carries a title.
\<close>

theorem createCard_valid_body_rejected:
  "map_option (map lst_id \<circ> board_lists) (boards two_card_store 1) = Some [10]
   \<and> createCard 1 10
        (Some (JObj [(''title'', JStr ''First Task''), (''description'', JStr ''Test task'')]))
        7 True two_card_store
       = (Returned (Inl (InvalidInput ''title required'')), two_card_store)"
  by (simp add: createCard_rejects two_card_store_def NewStore_def)

section \<open>Positions are contiguous\<close>

text \<open>
  Claim C4.  In every store reached from the empty store by calls of the handlers (whatever
  their outcome), the positions of the lists of every board are 0, 1, ... in sequence order,
  and so are the positions of the cards of every list.
\<close>

theorem positions_contiguous:
  assumes "reach s" and "boards s k = Some b"
  shows "map lst_position (board_lists b) = map int [0..<length (board_lists b)]
       \<and> (\<forall>l \<in> set (board_lists b).
            map card_position (lst_cards l) = map int [0..<length (lst_cards l)])"
proof -
  from assms(1) have "store_ok s"
  proof (induction rule: reach.induct)
    case reach_new
    show ?case by (simp add: store_ok_def NewStore_def)
  next
    case (reach_createBoard s req now io_ok)
    then show ?case by (simp add: store_ok_createBoard)
  next
    case (reach_createList s boardID req now io_ok)
    then show ?case by (simp add: store_ok_createList)
  next
    case (reach_createCard s boardID listID body new_id io_ok)
    then show ?case by (simp add: createCard_def store_ok_createCard_decoded)
  next
    case (reach_createCard_decoded s boardID listID creq new_id io_ok)
    then show ?case by (simp add: store_ok_createCard_decoded)
  next
    case (reach_moveCard s boardID mreq io_ok)
    then show ?case by (simp add: store_ok_moveCard)
  next
    case (reach_subscribe s boardID ch s')
    then show ?case using subscribe_boards store_ok_same by blast
  next
    case (reach_cancel s boardID ch s')
    then show ?case using cancel_boards store_ok_same by blast
  qed
  then have "lists_ok (board_lists b)" using assms(2) by (rule store_ok_board)
  then show ?thesis by (simp add: lists_ok_def cards_ok_def list_all_iff)
qed

text \<open>Claim C4 on the store of the scenario before the move.\<close>

theorem positions_contiguous_witness:
  "reach scenario_created
   \<and> boards scenario_created 1 = Some \<lparr>board_id = 1, board_title = ''Alpha'',
        board_lists = [\<lparr>lst_id = 2, lst_title = ''To Do'', lst_position = 0, lst_cards = []\<rparr>,
                       \<lparr>lst_id = 3, lst_title = ''Done'', lst_position = 1, lst_cards = []\<rparr>],
        board_events = 2\<rparr>
   \<and> map lst_position
         [\<lparr>lst_id = 2, lst_title = ''To Do'', lst_position = 0, lst_cards = []\<rparr>,
          \<lparr>lst_id = 3, lst_title = ''Done'', lst_position = 1, lst_cards = []\<rparr>]
       = [0, 1]"
proof -
  have r: "reach scenario_created"
    unfolding scenario_created_def scenario_card_def scenario_lists_def Let_def
    by (intro reach.intros)
  have b: "boards scenario_created 1 = Some \<lparr>board_id = 1, board_title = ''Alpha'',
        board_lists = [\<lparr>lst_id = 2, lst_title = ''To Do'', lst_position = 0, lst_cards = []\<rparr>,
                       \<lparr>lst_id = 3, lst_title = ''Done'', lst_position = 1, lst_cards = []\<rparr>],
        board_events = 2\<rparr>"
    by (simp add: scenario_created_def scenario_card_def scenario_lists_def createCard_rejects
          handler_defs Let_def)
  from positions_contiguous[OF r b] r b show ?thesis by simp
qed

section \<open>Where a moved card lands\<close>

text \<open>
  Claim C5.  Take a \<open>moveCard\<close> on an unlocked store that passes its validations: the
  board exists, the source list and the card are found (\<open>b1\<close> is the board once the card is
  cut out) and the destination list is found at index \<open>ti\<close>, holding \<open>n\<close> cards at that
  point.  If the requested position is negative, equal to \<open>n\<close> or greater, the card ends at
  the tail, at position \<open>n\<close>; if it is within \<open>0..n-1\<close> the card ends at exactly that
  position.  The other cards keep their order.
\<close>

theorem moveCard_final_position:
  assumes "mu s = Free" and "boards s k = Some b" and "take_card rq b = Inr (c, b1)"
    and "index_where (\<lambda>l. lst_id l = ToListID rq) (board_lists b1) = Some ti"
    and "n = length (lst_cards (board_lists b1 ! ti))"
  shows "\<exists>b2. boards (snd (moveCard k (Some rq) io_ok s)) k = Some b2
     \<and> length (lst_cards (board_lists b2 ! ti)) = Suc n
     \<and> (ToPos rq < 0 \<or> int n \<le> ToPos rq \<longrightarrow>
          lst_cards (board_lists b2 ! ti) ! n = c\<lparr>card_position := int n\<rparr>
          \<and> map card_id (lst_cards (board_lists b2 ! ti))
              = map card_id (lst_cards (board_lists b1 ! ti)) @ [card_id c])
     \<and> (0 \<le> ToPos rq \<and> ToPos rq < int n \<longrightarrow>
          lst_cards (board_lists b2 ! ti) ! nat (ToPos rq) = c\<lparr>card_position := ToPos rq\<rparr>
          \<and> map card_id (lst_cards (board_lists b2 ! ti))
              = map card_id (take (nat (ToPos rq)) (lst_cards (board_lists b1 ! ti)))
                @ card_id c #
                map card_id (drop (nat (ToPos rq)) (lst_cards (board_lists b1 ! ti))))"
proof -
  let ?old = "lst_cards (board_lists b1 ! ti)"
  let ?p = "clamp_pos (ToPos rq) (length ?old)"
  from put_card_at[OF assms(4), of c] obtain b2 where
    pc: "put_card rq c b1 = Inr (lst_id (board_lists b1 ! ti), ?p, b2)"
    and len: "length (lst_cards (board_lists b2 ! ti)) = Suc (length ?old)"
    and at: "lst_cards (board_lists b2 ! ti) ! ?p = c\<lparr>card_position := int ?p\<rparr>"
    and ids: "map card_id (lst_cards (board_lists b2 ! ti))
                = map card_id (take ?p ?old) @ card_id c # map card_id (drop ?p ?old)"
    by blast
  have mv: "boards (snd (moveCard k (Some rq) io_ok s)) k = Some b2"
    using assms(1-3) pc
    by (simp add: moveCard_def Lock_Free Let_def commit_WLocked)
  have tail: "ToPos rq < 0 \<or> int n \<le> ToPos rq \<Longrightarrow> ?p = n"
    using assms(5) by (auto simp: clamp_pos_def)
  have inr: "0 \<le> ToPos rq \<and> ToPos rq < int n \<Longrightarrow> ?p = nat (ToPos rq)"
    using assms(5) by (auto simp: clamp_pos_def)
  show ?thesis
  proof (intro exI[of _ b2] conjI impI)
    show "boards (snd (moveCard k (Some rq) io_ok s)) k = Some b2" by (rule mv)
    show "length (lst_cards (board_lists b2 ! ti)) = Suc n" using len assms(5) by simp
  next
    assume a: "ToPos rq < 0 \<or> int n \<le> ToPos rq"
    show "lst_cards (board_lists b2 ! ti) ! n = c\<lparr>card_position := int n\<rparr>"
      using at tail[OF a] by simp
    show "map card_id (lst_cards (board_lists b2 ! ti))
              = map card_id (lst_cards (board_lists b1 ! ti)) @ [card_id c]"
      using ids tail[OF a] assms(5) by simp
  next
    assume a: "0 \<le> ToPos rq \<and> ToPos rq < int n"
    show "lst_cards (board_lists b2 ! ti) ! nat (ToPos rq) = c\<lparr>card_position := ToPos rq\<rparr>"
      using at inr[OF a] a by simp
    show "map card_id (lst_cards (board_lists b2 ! ti))
              = map card_id (take (nat (ToPos rq)) (lst_cards (board_lists b1 ! ti)))
                @ card_id c #
                map card_id (drop (nat (ToPos rq)) (lst_cards (board_lists b1 ! ti)))"
      using ids inr[OF a] by simp
  qed
qed

text \<open>Claim C5 on the store with two cards: card 100 asked to position 7 of its own list ends at the tail.\<close>

theorem moveCard_final_position_witness:
  "mu two_card_store = Free
   \<and> boards two_card_store 1 = Some \<lparr>board_id = 1, board_title = ''B'',
      board_lists = [\<lparr>lst_id = 10, lst_title = ''L'', lst_position = 0,
         lst_cards = [\<lparr>card_id = 100, card_title = ''A'', card_description = [],
                        card_position = 0, card_due = None\<rparr>,
                      \<lparr>card_id = 101, card_title = ''Z'', card_description = [],
                        card_position = 1, card_due = None\<rparr>]\<rparr>],
      board_events = 2\<rparr>
   \<and> (\<exists>b2. boards (snd (moveCard 1
            (Some \<lparr>CardID = 100, FromListID = 10, ToListID = 10, ToPos = 7\<rparr>) True
            two_card_store)) 1 = Some b2
        \<and> lst_cards (board_lists b2 ! 0) ! 1
            = \<lparr>card_id = 100, card_title = ''A'', card_description = [],
                card_position = 1, card_due = None\<rparr>
        \<and> map card_id (lst_cards (board_lists b2 ! 0)) = [101, 100])"
proof -
  let ?rq = "\<lparr>CardID = 100, FromListID = 10, ToListID = 10, ToPos = 7\<rparr>"
  let ?b = "\<lparr>board_id = 1, board_title = ''B'',
      board_lists = [\<lparr>lst_id = 10, lst_title = ''L'', lst_position = 0,
         lst_cards = [\<lparr>card_id = 100, card_title = ''A'', card_description = [],
                        card_position = 0, card_due = None\<rparr>,
                      \<lparr>card_id = 101, card_title = ''Z'', card_description = [],
                        card_position = 1, card_due = None\<rparr>]\<rparr>],
      board_events = 2\<rparr>"
  let ?c = "\<lparr>card_id = 100, card_title = ''A'', card_description = [],
                        card_position = 0, card_due = None\<rparr>"
  let ?b1 = "\<lparr>board_id = 1, board_title = ''B'',
      board_lists = [\<lparr>lst_id = 10, lst_title = ''L'', lst_position = 0,
         lst_cards = [\<lparr>card_id = 101, card_title = ''Z'', card_description = [],
                        card_position = 0, card_due = None\<rparr>]\<rparr>],
      board_events = 2\<rparr>"
  have h1: "mu two_card_store = Free" by (simp add: two_card_store_def NewStore_def)
  have h2: "boards two_card_store 1 = Some ?b" by (simp add: two_card_store_def NewStore_def)
  have h3: "take_card ?rq ?b = Inr (?c, ?b1)" by (simp add: take_card_def renumber_def)
  have h4: "index_where (\<lambda>l. lst_id l = ToListID ?rq) (board_lists ?b1) = Some 0" by simp
  have h5: "(1::nat) = length (lst_cards (board_lists ?b1 ! 0))" by simp
  from moveCard_final_position[OF h1 h2 h3 h4 h5, of True] h1 h2 show ?thesis
    by auto
qed

section \<open>The event counter of a board\<close>

text \<open>
  Claim C6.  On a board whose counter is \<open>9223372036854775807\<close>, a \<open>createList\<close> returns
  its list and leaves the counter at \<open>-9223372036854775808\<close>: the counter has decreased,
  where the claim (and the comment on the field, line 27) has it increase by one.
\<close>

theorem createList_counter_wraps:
  "fst (createList 1 (Some ''L'') 2 True full_counter_store)
     = Returned (Inr \<lparr>lst_id = 2, lst_title = ''L'', lst_position = 0, lst_cards = []\<rparr>)
   \<and> events_of full_counter_store 1 = Some 9223372036854775807
   \<and> events_of (snd (createList 1 (Some ''L'') 2 True full_counter_store)) 1
       = Some (- 9223372036854775808)"
  by (simp add: full_counter_store_def events_of_def handler_defs Let_def)


text \<open>
  What the handlers do to the counters otherwise.  No handler changes the counter of a board
  other than the one it is called on.  A \<open>createBoard\<close> that returns a board leaves the
  counter under its id at 0.  A \<open>createList\<close> that returns its list, lines 231-263 of
  \<open>createCard\<close> when they return a card, and a \<open>moveCard\<close> on an unlocked store that
  passes its validations add one to the counter in \<open>int64\<close> arithmetic.  A handler that
  returns an error changes no counter.
\<close>

theorem event_counter_steps:
  "(others_kept now s (snd (createBoard breq now io_ok s))
     \<and> (\<forall>b. fst (createBoard breq now io_ok s) = Returned (Inr b) \<longrightarrow>
            events_of (snd (createBoard breq now io_ok s)) now = Some 0)
     \<and> (\<forall>e. fst (createBoard breq now io_ok s) = Returned (Inl e) \<longrightarrow>
            snd (createBoard breq now io_ok s) = s))
   \<and> (others_kept k s (snd (createList k lreq now io_ok s))
     \<and> (\<forall>l. fst (createList k lreq now io_ok s) = Returned (Inr l) \<longrightarrow>
            counted k s (snd (createList k lreq now io_ok s)))
     \<and> (\<forall>e. fst (createList k lreq now io_ok s) = Returned (Inl e) \<longrightarrow>
            snd (createList k lreq now io_ok s) = s))
   \<and> (others_kept k s (snd (createCard_decoded k lid creq new_id io_ok s))
     \<and> (\<forall>c. fst (createCard_decoded k lid creq new_id io_ok s) = Returned (Inr c) \<longrightarrow>
            counted k s (snd (createCard_decoded k lid creq new_id io_ok s)))
     \<and> (\<forall>e. fst (createCard_decoded k lid creq new_id io_ok s) = Returned (Inl e) \<longrightarrow>
            snd (createCard_decoded k lid creq new_id io_ok s) = s))
   \<and> (others_kept k s (snd (moveCard k mreq io_ok s))
     \<and> (mu s = Free \<and> fst (moveCard k mreq io_ok s) = Blocks \<longrightarrow>
            counted k s (snd (moveCard k mreq io_ok s)))
     \<and> (\<forall>e k'. fst (moveCard k mreq io_ok s) = Returned (Inl e) \<longrightarrow>
            events_of (snd (moveCard k mreq io_ok s)) k' = events_of s k'))"
proof (intro conjI allI impI)
  show "others_kept now s (snd (createBoard breq now io_ok s))" by (rule createBoard_others)
  show "others_kept k s (snd (createList k lreq now io_ok s))" by (rule createList_others)
  show "others_kept k s (snd (createCard_decoded k lid creq new_id io_ok s))" by (rule createCard_decoded_others)
  show "others_kept k s (snd (moveCard k mreq io_ok s))" by (rule moveCard_others)
next
  fix b assume "fst (createBoard breq now io_ok s) = Returned (Inr b)"
  then show "events_of (snd (createBoard breq now io_ok s)) now = Some 0" by (rule createBoard_ok)
next
  fix e assume "fst (createBoard breq now io_ok s) = Returned (Inl e)"
  then show "snd (createBoard breq now io_ok s) = s" by (rule createBoard_error)
next
  fix l assume "fst (createList k lreq now io_ok s) = Returned (Inr l)"
  then show "counted k s (snd (createList k lreq now io_ok s))" by (rule createList_ok)
next
  fix e assume "fst (createList k lreq now io_ok s) = Returned (Inl e)"
  then show "snd (createList k lreq now io_ok s) = s" by (rule createList_error)
next
  fix c assume "fst (createCard_decoded k lid creq new_id io_ok s) = Returned (Inr c)"
  then show "counted k s (snd (createCard_decoded k lid creq new_id io_ok s))" by (rule createCard_decoded_ok)
next
  fix e assume "fst (createCard_decoded k lid creq new_id io_ok s) = Returned (Inl e)"
  then show "snd (createCard_decoded k lid creq new_id io_ok s) = s" by (rule createCard_decoded_error)
next
  assume "mu s = Free \<and> fst (moveCard k mreq io_ok s) = Blocks"
  then show "counted k s (snd (moveCard k mreq io_ok s))"
    using moveCard_blocks_counted by blast
next
  fix e k' assume "fst (moveCard k mreq io_ok s) = Returned (Inl e)"
  then show "events_of (snd (moveCard k mreq io_ok s)) k' = events_of s k'"
    by (rule moveCard_error_events)
qed


text \<open>The same on the store with two cards.\<close>

theorem event_counter_steps_witness:
  "fst (createList 1 (Some ''L'') 2 True two_card_store)
     = Returned (Inr \<lparr>lst_id = 2, lst_title = ''L'', lst_position = 1, lst_cards = []\<rparr>)
   \<and> events_of two_card_store 1 = Some 2
   \<and> counted 1 two_card_store (snd (createList 1 (Some ''L'') 2 True two_card_store))
   \<and> mu two_card_store = Free
   \<and> fst (moveCard 1 (Some \<lparr>CardID = 100, FromListID = 10, ToListID = 10, ToPos = 1\<rparr>) True
            two_card_store) = Blocks
   \<and> counted 1 two_card_store
        (snd (moveCard 1 (Some \<lparr>CardID = 100, FromListID = 10, ToListID = 10, ToPos = 1\<rparr>) True
            two_card_store))"
proof -
  have f: "fst (createList 1 (Some ''L'') 2 True two_card_store)
     = Returned (Inr \<lparr>lst_id = 2, lst_title = ''L'', lst_position = 1, lst_cards = []\<rparr>)"
    by (simp add: two_card_store_def handler_defs Let_def)
  have e: "events_of two_card_store 1 = Some 2"
    by (simp add: two_card_store_def events_of_def NewStore_def)
  have m: "mu two_card_store = Free" by (simp add: two_card_store_def NewStore_def)
  have g: "fst (moveCard 1 (Some \<lparr>CardID = 100, FromListID = 10, ToListID = 10, ToPos = 1\<rparr>) True
            two_card_store) = Blocks"
    by (simp add: two_card_store_def handler_defs Let_def)
  from event_counter_steps [where s = two_card_store and k = 1 and lreq = "Some ''L''"
        and now = 2 and io_ok = True
        and mreq = "Some \<lparr>CardID = 100, FromListID = 10, ToListID = 10, ToPos = 1\<rparr>"]
    f e m g show ?thesis by blast
qed

section \<open>Startup\<close>

text \<open>
  Claim C8.  When no file exists at the path, \<open>load\<close> returns without error, the store is
  the empty one and \<open>main\<close> goes on to serve.  When the file cannot be opened for another
  reason, or when the decoder returns an error on its bytes, \<open>load\<close> returns that error and
  \<open>main\<close> ends in \<open>log.Fatal\<close>.  When the decoder accepts the bytes, \<open>main\<close> serves the
  decoded map.
\<close>

theorem load_startup:
  "load dec NotExist NewStore = Returned (None, NewStore)
   \<and> main_startup dec NotExist = Serving NewStore
   \<and> boards NewStore = Map.empty
   \<and> load dec (OpenError e) NewStore = Returned (Some e, NewStore)
   \<and> main_startup dec (OpenError e) = Fatal e
   \<and> (\<forall>m err. dec bs Map.empty = (m, Some err) \<longrightarrow>
         load dec (Opened bs) NewStore = Returned (Some err, NewStore\<lparr>boards := m\<rparr>)
         \<and> main_startup dec (Opened bs) = Fatal err)
   \<and> (\<forall>m. dec bs Map.empty = (m, None) \<longrightarrow>
         main_startup dec (Opened bs) = Serving (NewStore\<lparr>boards := m\<rparr>))"
  by (simp add: load_def main_startup_def NewStore_def Lock_def Unlock_def)

text \<open>Claim C8 with the decoder that accepts only the empty object, on a truncated file.\<close>

theorem load_startup_witness:
  "toy_decoder ''{'' Map.empty = (Map.empty, Some ''invalid character'')
   \<and> main_startup toy_decoder (Opened ''{'') = Fatal ''invalid character''
   \<and> main_startup toy_decoder NotExist = Serving NewStore"
  using load_startup [of toy_decoder "''{''"]
  by (simp add: toy_decoder_def)

section \<open>Delivery to subscribers\<close>

text \<open>
  Claim C9.  On an unlocked store with a sound registry, \<open>broadcast\<close> returns, and it
  changes nothing but the queues: a registered channel of the board with fewer than 16
  pending messages gets the message appended; a registered channel with 16 pending messages
  is left as it is; every other channel is left as it is.  On such a store \<open>createList\<close>
  with a title, and lines 231-263 of \<open>createCard\<close> with a title and a list that resolves,
  return their entity whatever the queues hold.
\<close>

theorem broadcast_delivery:
  assumes "mu s = Free" and "registry_ok s"
  shows "(\<exists>s'. broadcast k m s = Returned s'
          \<and> mu s' = Free \<and> boards s' = boards s \<and> streams s' = streams s \<and> disk s' = disk s
          \<and> (\<forall>a c. chans s a = Some c \<longrightarrow>
                chans s' a = Some (if a \<in> set (subs_of s k) \<and> length (chan_buf c) < 16
                                   then c\<lparr>chan_buf := chan_buf c @ [m]\<rparr> else c))
          \<and> (\<forall>a. chans s a = None \<longrightarrow> chans s' a = None))
       \<and> (\<forall>title b now io_ok. title \<noteq> [] \<and> boards s k = Some b \<longrightarrow>
            (\<exists>l. fst (createList k (Some title) now io_ok s) = Returned (Inr l)))
       \<and> (\<forall>rq b lid new_id io_ok. req_title rq \<noteq> [] \<and> boards s k = Some b
               \<and> lid \<in> lst_id ` set (board_lists b) \<longrightarrow>
            (\<exists>c. fst (createCard_decoded k lid (Some rq) new_id io_ok s) = Returned (Inr c)))"
proof (intro conjI allI impI)
  let ?h = "\<lambda>a. if a \<in> set (subs_of s k) then try_send m (the (chans s a)) else chans s a"
  have b: "broadcast k m s = Returned (s\<lparr>chans := ?h\<rparr>)"
    using assms by (rule broadcast_Free)
  have live: "live (chans s) (subs_of s k)" using registry_live[OF assms(2)] by simp
  have h1: "?h a = Some (if a \<in> set (subs_of s k) \<and> length (chan_buf c) < 16
                                   then c\<lparr>chan_buf := chan_buf c @ [m]\<rparr> else c)"
    if c: "chans s a = Some c" for a c
  proof (cases "a \<in> set (subs_of s k)")
    case True
    with live c have "\<not> chan_closed c" by (auto simp: live_def)
    moreover have "chan_cap c = 16" using assms(2) c by (simp add: registry_ok_def)
    ultimately show ?thesis using True c by (simp add: try_send_open)
  next
    case False
    with c show ?thesis by simp
  qed
  have h2: "?h a = None" if n: "chans s a = None" for a
  proof -
    from live n have "a \<notin> set (subs_of s k)" by (auto simp: live_def)
    with n show ?thesis by simp
  qed
  show "\<exists>s'. broadcast k m s = Returned s'
          \<and> mu s' = Free \<and> boards s' = boards s \<and> streams s' = streams s \<and> disk s' = disk s
          \<and> (\<forall>a c. chans s a = Some c \<longrightarrow>
                chans s' a = Some (if a \<in> set (subs_of s k) \<and> length (chan_buf c) < 16
                                   then c\<lparr>chan_buf := chan_buf c @ [m]\<rparr> else c))
          \<and> (\<forall>a. chans s a = None \<longrightarrow> chans s' a = None)"
    using b h1 h2 assms(1) by (intro exI[of _ "s\<lparr>chans := ?h\<rparr>"]) simp
next
  fix title :: string and b :: board and now :: ident and io_ok :: bool
  assume "title \<noteq> [] \<and> boards s k = Some b"
  then show "\<exists>l. fst (createList k (Some title) now io_ok s) = Returned (Inr l)"
    using createList_Free[OF assms] by blast
next
  fix rq :: card_req and b :: board and lid new_id :: ident and io_ok :: bool
  assume a: "req_title rq \<noteq> [] \<and> boards s k = Some b \<and> lid \<in> lst_id ` set (board_lists b)"
  then have "index_where (\<lambda>l. lst_id l = lid) (board_lists b) \<noteq> None"
    by (auto simp: index_where_None)
  then obtain i where "index_where (\<lambda>l. lst_id l = lid) (board_lists b) = Some i" by auto
  with a show "\<exists>c. fst (createCard_decoded k lid (Some rq) new_id io_ok s) = Returned (Inr c)"
    using createCard_decoded_Free[OF assms] by blast
qed

text \<open>
  Claim C9 on the board with a full and an empty subscriber: the full queue keeps its 16
  messages, the empty one receives the message, and a list creation on that board returns.
\<close>

theorem broadcast_delivery_witness:
  "mu fanout_store = Free \<and> registry_ok fanout_store
   \<and> (\<exists>s'. broadcast 1 (CardMoved 9 3 0) fanout_store = Returned s'
         \<and> chans s' 0 = Some \<lparr>chan_buf = replicate 16 (CardMoved 4 3 0), chan_cap = 16,
                                chan_closed = False\<rparr>
         \<and> chans s' 1 = Some \<lparr>chan_buf = [CardMoved 9 3 0], chan_cap = 16, chan_closed = False\<rparr>)
   \<and> (\<exists>l. fst (createList 1 (Some ''L'') 2 True fanout_store) = Returned (Inr l))"
proof -
  have m: "mu fanout_store = Free" by (simp add: fanout_store_def NewStore_def)
  have c0: "chans fanout_store 0 = Some \<lparr>chan_buf = replicate 16 (CardMoved 4 3 0), chan_cap = 16,
                                chan_closed = False\<rparr>"
    and c1: "chans fanout_store 1 = Some \<lparr>chan_buf = [], chan_cap = 16, chan_closed = False\<rparr>"
    and su: "subs_of fanout_store 1 = [0, 1]"
    and bd: "''L'' \<noteq> [] \<and> boards fanout_store 1 = Some \<lparr>board_id = 1, board_title = ''B'',
        board_lists = [], board_events = 0\<rparr>"
    by (simp_all add: fanout_store_def NewStore_def subs_of_def)
  note T = broadcast_delivery[OF m registry_ok_fanout_store, of 1 "CardMoved 9 3 0"]
  from T[THEN conjunct1]
  obtain s' where s': "broadcast 1 (CardMoved 9 3 0) fanout_store = Returned s'"
    and d: "\<forall>a c. chans fanout_store a = Some c \<longrightarrow>
                chans s' a = Some (if a \<in> set (subs_of fanout_store 1) \<and> length (chan_buf c) < 16
                                   then c\<lparr>chan_buf := chan_buf c @ [CardMoved 9 3 0]\<rparr> else c)"
    by (elim exE conjE)
  from d c0 su have "chans s' 0 = Some \<lparr>chan_buf = replicate 16 (CardMoved 4 3 0), chan_cap = 16,
                                chan_closed = False\<rparr>" by simp
  moreover from d c1 su
  have "chans s' 1 = Some \<lparr>chan_buf = [CardMoved 9 3 0], chan_cap = 16, chan_closed = False\<rparr>"
    by simp
  moreover from T[THEN conjunct2, THEN conjunct1, rule_format, OF bd]
  have "\<exists>l. fst (createList 1 (Some ''L'') 2 True fanout_store) = Returned (Inr l)" .
  ultimately show ?thesis using m registry_ok_fanout_store s' by blast
qed

section \<open>Subscribing and cancelling\<close>

text \<open>
  Claim C10.  On an unlocked store with a sound registry, \<open>subscribe\<close> returns for every
  board id, whether or not a board is stored under it: it returns a new channel, empty, open
  and of capacity 16, registered for that id next to the channels that were; the registries
  of the other ids, the other channels and the boards are as before.  The cancel closure, run
  on an unlocked store where that channel is still open, removes exactly that channel from
  the registry of the id and closes it; the other channels and registries are untouched.
\<close>

theorem subscribe_then_cancel:
  assumes "mu s = Free" and "registry_ok s"
  shows "(\<exists>s'. subscribe k s = Returned (nchan s, s')
       \<and> chans s (nchan s) = None
       \<and> chans s' (nchan s) = Some \<lparr>chan_buf = [], chan_cap = 16, chan_closed = False\<rparr>
       \<and> set (subs_of s' k) = insert (nchan s) (set (subs_of s k))
       \<and> (\<forall>k'. k' \<noteq> k \<longrightarrow> streams s' k' = streams s k')
       \<and> (\<forall>a. a \<noteq> nchan s \<longrightarrow> chans s' a = chans s a)
       \<and> boards s' = boards s \<and> mu s' = Free \<and> registry_ok s')
     \<and> (\<forall>t c. mu t = Free \<and> chans t (nchan s) = Some c \<and> \<not> chan_closed c \<longrightarrow>
            (\<exists>t'. cancel k (nchan s) t = Returned t'
               \<and> set (subs_of t' k) = set (subs_of t k) - {nchan s}
               \<and> chans t' (nchan s) = Some (c\<lparr>chan_closed := True\<rparr>)
               \<and> (\<forall>a. a \<noteq> nchan s \<longrightarrow> chans t' a = chans t a)
               \<and> (\<forall>k'. k' \<noteq> k \<longrightarrow> streams t' k' = streams t k')
               \<and> boards t' = boards t \<and> mu t' = Free))"
proof -
  let ?ch = "nchan s"
  let ?s' = "s\<lparr>chans := (chans s)(?ch \<mapsto> \<lparr>chan_buf = [], chan_cap = 16, chan_closed = False\<rparr>),
             nchan := Suc ?ch,
             streams := (streams s)(k \<mapsto> List.insert ?ch (subs_of s k))\<rparr>"
  have sub: "subscribe k s = Returned (?ch, ?s')" using assms(1) by (rule subscribe_Free)
  have fresh: "chans s ?ch = None" using assms(2) by (rule registry_fresh)
  have ok: "registry_ok ?s'" using assms(2) by (rule registry_ok_subscribe)
  have can: "\<exists>t'. cancel k ?ch t = Returned t'
               \<and> set (subs_of t' k) = set (subs_of t k) - {?ch}
               \<and> chans t' ?ch = Some (c\<lparr>chan_closed := True\<rparr>)
               \<and> (\<forall>a. a \<noteq> ?ch \<longrightarrow> chans t' a = chans t a)
               \<and> (\<forall>k'. k' \<noteq> k \<longrightarrow> streams t' k' = streams t k')
               \<and> boards t' = boards t \<and> mu t' = Free"
    if h: "mu t = Free \<and> chans t ?ch = Some c \<and> \<not> chan_closed c" for t c
  proof -
    let ?t' = "t\<lparr>streams := (case streams t k of None \<Rightarrow> streams t
                                          | Some subs \<Rightarrow> (streams t)(k \<mapsto> removeAll ?ch subs)),
                 chans := (chans t)(?ch \<mapsto> c\<lparr>chan_closed := True\<rparr>)\<rparr>"
    have "cancel k ?ch t = Returned ?t'" using h by (simp add: cancel_Free)
    moreover have "set (subs_of ?t' k) = set (subs_of t k) - {?ch}"
      by (auto simp: subs_of_def split: option.splits)
    moreover have "\<forall>k'. k' \<noteq> k \<longrightarrow> streams ?t' k' = streams t k'"
      by (simp split: option.splits)
    ultimately show ?thesis using h by (intro exI[of _ ?t']) simp
  qed
  have "set (subs_of ?s' k) = insert ?ch (set (subs_of s k))"
    by (simp add: subs_of_def)
  then have "\<exists>s'. subscribe k s = Returned (nchan s, s')
       \<and> chans s (nchan s) = None
       \<and> chans s' (nchan s) = Some \<lparr>chan_buf = [], chan_cap = 16, chan_closed = False\<rparr>
       \<and> set (subs_of s' k) = insert (nchan s) (set (subs_of s k))
       \<and> (\<forall>k'. k' \<noteq> k \<longrightarrow> streams s' k' = streams s k')
       \<and> (\<forall>a. a \<noteq> nchan s \<longrightarrow> chans s' a = chans s a)
       \<and> boards s' = boards s \<and> mu s' = Free \<and> registry_ok s'"
    using sub fresh ok assms(1) by (intro exI[of _ ?s']) simp
  with can show ?thesis by (intro conjI allI impI)
qed

text \<open>Claim C10 on the empty store, for the id 7 of no board.\<close>

theorem subscribe_then_cancel_witness:
  "mu NewStore = Free \<and> registry_ok NewStore \<and> boards NewStore 7 = None
   \<and> (\<exists>s' t'. subscribe 7 NewStore = Returned (0, s')
         \<and> chans s' 0 = Some \<lparr>chan_buf = [], chan_cap = 16, chan_closed = False\<rparr>
         \<and> set (subs_of s' 7) = {0}
         \<and> cancel 7 0 s' = Returned t'
         \<and> set (subs_of t' 7) = {}
         \<and> chans t' 0 = Some \<lparr>chan_buf = [], chan_cap = 16, chan_closed = True\<rparr>)"
proof -
  have m: "mu NewStore = Free" and n: "nchan NewStore = 0" and e: "subs_of NewStore 7 = []"
    and b: "boards NewStore 7 = None"
    by (simp_all add: NewStore_def subs_of_def)
  have r: "registry_ok NewStore" by (simp add: registry_ok_def NewStore_def)
  note T = subscribe_then_cancel[OF m r, of 7, unfolded n e]
  from T[THEN conjunct1] obtain s' where
    s: "subscribe 7 NewStore = Returned (0, s')"
    and c: "chans s' 0 = Some \<lparr>chan_buf = [], chan_cap = 16, chan_closed = False\<rparr>"
    and su: "set (subs_of s' 7) = insert 0 (set [])" and ms: "mu s' = Free"
    by (elim exE conjE)
  have "mu s' = Free \<and> chans s' 0 = Some \<lparr>chan_buf = [], chan_cap = 16, chan_closed = False\<rparr>
        \<and> \<not> chan_closed \<lparr>chan_buf = [], chan_cap = 16, chan_closed = False\<rparr>"
    using ms c by simp
  from T[THEN conjunct2, rule_format, OF this] obtain t' where
    "cancel 7 0 s' = Returned t'" "set (subs_of t' 7) = set (subs_of s' 7) - {0}"
    "chans t' 0 = Some (\<lparr>chan_buf = [], chan_cap = 16, chan_closed = False\<rparr>\<lparr>chan_closed := True\<rparr>)"
    by (elim exE conjE)
  then have "cancel 7 0 s' = Returned t'" "set (subs_of t' 7) = {}"
    "chans t' 0 = Some \<lparr>chan_buf = [], chan_cap = 16, chan_closed = True\<rparr>"
    using su by simp_all
  with s c su have "\<exists>s' t'. subscribe 7 NewStore = Returned (0, s')
         \<and> chans s' 0 = Some \<lparr>chan_buf = [], chan_cap = 16, chan_closed = False\<rparr>
         \<and> set (subs_of s' 7) = {0}
         \<and> cancel 7 0 s' = Returned t'
         \<and> set (subs_of t' 7) = {}
         \<and> chans t' 0 = Some \<lparr>chan_buf = [], chan_cap = 16, chan_closed = True\<rparr>"
    by (intro exI[of _ s'] exI[of _ t']) simp
  with m r b show ?thesis by simp
qed

section \<open>Saving and loading\<close>

text \<open>
  Claim C7.  On an unlocked store whose snapshot write succeeds, \<open>save\<close> followed by
  \<open>load\<close> gives back the board map that was saved, equal in every board, list and card and
  in each of their fields: loaded into the same store it leaves the store as it is, loaded
  into a new store it gives a store with the same board map.  No error is returned.
\<close>

theorem save_load_roundtrip:
  assumes "mu s = Free"
  shows "\<exists>s1. save True s = Some s1 \<and> boards s1 = boards s
     \<and> load decode_boards (snapshot_file s1) s1 = Returned (None, s1)
     \<and> load decode_boards (snapshot_file s1) NewStore
          = Returned (None, NewStore\<lparr>boards := boards s\<rparr>)"
proof -
  let ?s1 = "s\<lparr>disk := encode_boards (boards s) # disk s\<rparr>"
  have sv: "save True s = Some ?s1" using assms by (simp add: save_Free)
  have f: "snapshot_file ?s1 = Opened (encode_boards (boards s))" by (simp add: snapshot_file_def)
  have m: "mu ?s1 = Free" using assms by simp
  have "load decode_boards (snapshot_file ?s1) ?s1 = Returned (None, ?s1)"
    using m by (simp add: load_def f Lock_Free decode_encode_boards Unlock_Lock_boards
          map_add_same)
  moreover have "load decode_boards (snapshot_file ?s1) NewStore
          = Returned (None, NewStore\<lparr>boards := boards s\<rparr>)"
    by (simp add: load_def f Lock_def Unlock_def decode_encode_boards NewStore_def)
  ultimately show ?thesis using sv by (intro exI[of _ ?s1]) simp
qed

text \<open>
  Claim C7 on the store with two cards, and the codec on a board with a card that has a due
  time and one that has none.
\<close>

theorem save_load_roundtrip_witness:
  "mu two_card_store = Free
   \<and> (\<exists>s1. save True two_card_store = Some s1
         \<and> load decode_boards (snapshot_file s1) NewStore
             = Returned (None, NewStore\<lparr>boards := boards two_card_store\<rparr>))
   \<and> decode_board (encode_board \<lparr>board_id = 1, board_title = ''B'',
      board_lists = [\<lparr>lst_id = 10, lst_title = ''L'', lst_position = 0,
         lst_cards = [\<lparr>card_id = 100, card_title = ''A'', card_description = [],
                        card_position = 0, card_due = None\<rparr>,
                      \<lparr>card_id = 101, card_title = ''Z'', card_description = [],
                        card_position = 1, card_due = Some 5\<rparr>]\<rparr>],
      board_events = 2\<rparr>) = Some \<lparr>board_id = 1, board_title = ''B'',
      board_lists = [\<lparr>lst_id = 10, lst_title = ''L'', lst_position = 0,
         lst_cards = [\<lparr>card_id = 100, card_title = ''A'', card_description = [],
                        card_position = 0, card_due = None\<rparr>,
                      \<lparr>card_id = 101, card_title = ''Z'', card_description = [],
                        card_position = 1, card_due = Some 5\<rparr>]\<rparr>],
      board_events = 2\<rparr>"
proof -
  have m: "mu two_card_store = Free" by (simp add: two_card_store_def NewStore_def)
  from save_load_roundtrip[OF m] m show ?thesis
    by (auto simp: decode_encode_board)
qed

end
